theory Spec2Isabelle
  imports Complex_Main
begin

section \<open>Data model\<close>

text \<open>
  The unit normalisation subsystem works on two tables, \<open>units\<close> and \<open>boqs\<close>, and on
  the JSON document stored in \<open>boqs.data\<close>.

  A string is the list of its UTF-16 code units, which is what \<open>length\<close>,
  \<open>substring\<close> and \<open>===\<close> work on in JavaScript. A code unit is a natural number (it is
  below 65536; nothing in the scripts depends on the bound). \<open>lit\<close> gives the string of a
  literal.

  A number is a rational: a JSON number is a decimal literal, and every finite double is a
  rational.

  A JSON field of an item is an option: \<open>None\<close> stands for a field that is absent or
  \<open>null\<close>, which none of the scripts tells apart, and \<open>Some v\<close> for a value, the empty
  string included.
\<close>

type_synonym jstring = "nat list"

definition lit :: "string \<Rightarrow> jstring" where
  "lit s = map of_char s"

datatype error = TypeError | UniqueViolation

record item =
  it_description :: "jstring option"
  it_quantity :: "rat option"
  it_rate :: "rat option"
  it_line_total :: "rat option"
  it_amount :: "rat option"
  it_unit :: "jstring option"
  it_unit_name :: "jstring option"
  it_unit_id :: "jstring option"
  it_unit_abbreviation :: "jstring option"

text \<open>
  An entry of an \<open>items\<close> array is an object or \<open>null\<close> (\<open>None\<close>); \<open>items\<close> itself
  and \<open>sections\<close> are \<open>None\<close> when the field is absent or not an array.
\<close>

record boq_section =
  s_title :: "jstring option"
  s_items :: "item option list option"

record boq_data =
  d_notes :: "jstring option"
  d_sections :: "boq_section option list option"

record boq =
  b_id :: jstring
  b_number :: "jstring option"
  b_company_id :: "jstring option"
  b_data :: "boq_data option"

text \<open>A row of \<open>units\<close>, and what \<open>SELECT id, name, abbreviation\<close> keeps of it.\<close>

record unit_row =
  ur_id :: jstring
  ur_company_id :: "jstring option"
  ur_name :: jstring
  ur_abbreviation :: "jstring option"

record company_unit =
  u_id :: jstring
  u_name :: jstring
  u_abbreviation :: "jstring option"

record db =
  db_companies :: "jstring list"
  db_units :: "unit_row list"
  db_boqs :: "boq list"
  db_next_id :: nat

section \<open>JavaScript values\<close>

text \<open>Truthiness of a string-or-missing value: only a non-empty string is truthy.\<close>

fun truthy :: "jstring option \<Rightarrow> bool" where
  "truthy None = False"
| "truthy (Some s) = (s \<noteq> [])"

text \<open>\<open>a || b\<close> on such values.\<close>

definition js_or :: "jstring option \<Rightarrow> jstring option \<Rightarrow> jstring option" where
  "js_or a b = (if truthy a then a else b)"

text \<open>\<open>a || d\<close> where \<open>d\<close> is a string, and the string behind a truthy value.\<close>

definition or_else :: "jstring option \<Rightarrow> jstring \<Rightarrow> jstring" where
  "or_else a d = (case a of None \<Rightarrow> d | Some s \<Rightarrow> if s = [] then d else s)"

definition str :: "jstring option \<Rightarrow> jstring" where
  "str a = (case a of None \<Rightarrow> [] | Some s \<Rightarrow> s)"

text \<open>
  What the scripts take from the JavaScript engine: \<open>String.prototype.toLowerCase\<close> and
  \<open>String.prototype.toUpperCase\<close>, which apply the case mappings of Unicode, and the text
  \<open>Array.prototype.join\<close> writes for a number of a document (\<open>Number::toString\<close> of
  the double the number was read as). The repository defines none of them, so they are
  parameters of the model: what is proved of an arbitrary \<open>js\<close> holds for the engine
  that runs the scripts.
\<close>

record engine =
  toLowerCase :: "jstring \<Rightarrow> jstring"
  toUpperCase :: "jstring \<Rightarrow> jstring"
  numberToString :: "rat \<Rightarrow> jstring"

section \<open>Store access\<close>

definition row_unit :: "unit_row \<Rightarrow> company_unit" where
  "row_unit r = \<lparr>u_id = ur_id r, u_name = ur_name r, u_abbreviation = ur_abbreviation r\<rparr>"

text \<open>\<open>SELECT id, name, abbreviation FROM units WHERE company_id = $1\<close>\<close>

definition select_units :: "jstring \<Rightarrow> db \<Rightarrow> company_unit list" where
  "select_units companyId d =
     map row_unit (filter (\<lambda>r. ur_company_id r = Some companyId) (db_units d))"

text \<open>\<open>SELECT id, data FROM boqs WHERE company_id = $1\<close>\<close>

definition select_boqs :: "jstring \<Rightarrow> db \<Rightarrow> boq list" where
  "select_boqs companyId d = filter (\<lambda>b. b_company_id b = Some companyId) (db_boqs d)"

text \<open>\<open>UPDATE boqs SET data = $1 WHERE id = $2\<close>\<close>

definition update_boq :: "jstring \<Rightarrow> boq_data \<Rightarrow> db \<Rightarrow> db" where
  "update_boq bid data d =
     d\<lparr>db_boqs := map (\<lambda>r. if b_id r = bid then r\<lparr>b_data := Some data\<rparr> else r) (db_boqs d)\<rparr>"

text \<open>
  \<open>INSERT INTO units (company_id, name, abbreviation, ...) RETURNING id, name, abbreviation\<close>.
  The store generates the id: \<open>gen\<close> maps the store's counter to the identifier it hands
  out. The insert fails on \<open>UNIQUE(company_id, name)\<close>.
\<close>

definition insert_unit ::
  "(nat \<Rightarrow> jstring) \<Rightarrow> jstring \<Rightarrow> jstring \<Rightarrow> jstring \<Rightarrow> db \<Rightarrow> error + company_unit \<times> db" where
  "insert_unit gen companyId name abbrev d =
     (if \<exists>r \<in> set (db_units d). ur_company_id r = Some companyId \<and> ur_name r = name
      then Inl UniqueViolation
      else
        let row = \<lparr>ur_id = gen (db_next_id d), ur_company_id = Some companyId,
                   ur_name = name, ur_abbreviation = Some abbrev\<rparr>
        in Inr (row_unit row,
                d\<lparr>db_units := db_units d @ [row], db_next_id := Suc (db_next_id d)\<rparr>))"

section \<open>The loop nest shared by the batch scripts\<close>

text \<open>
  Each script walks \<open>data.sections\<close> and every section's \<open>items\<close> with the same three
  loops and differs in the body run on an item. The body is the parameter \<open>step\<close>: it
  takes the state the script threads through the run and the array entry, and gives back
  the item as mutated, whether it set \<open>changed = true\<close>, and the new state. A \<open>null\<close>
  entry makes the field access in the body throw.
\<close>

fun for_items ::
  "('s \<Rightarrow> item option \<Rightarrow> error + item \<times> bool \<times> 's) \<Rightarrow> 's \<Rightarrow> item option list
     \<Rightarrow> error + item option list \<times> bool \<times> 's" where
  "for_items step s [] = Inr ([], False, s)"
| "for_items step s (e # es) =
     (case step s e of
        Inl err \<Rightarrow> Inl err
      | Inr (it', c, s') \<Rightarrow>
          (case for_items step s' es of
             Inl err \<Rightarrow> Inl err
           | Inr (es', c', s'') \<Rightarrow> Inr (Some it' # es', c \<or> c', s'')))"

text \<open>
  \<open>for (const sec of data.sections) { if (!sec.items || !Array.isArray(sec.items)) continue; ... }\<close>:
  reading \<open>sec.items\<close> of a \<open>null\<close> section throws.
\<close>

fun for_sections ::
  "('s \<Rightarrow> item option \<Rightarrow> error + item \<times> bool \<times> 's) \<Rightarrow> 's \<Rightarrow> boq_section option list
     \<Rightarrow> error + boq_section option list \<times> bool \<times> 's" where
  "for_sections step s [] = Inr ([], False, s)"
| "for_sections step s (None # secs) = Inl TypeError"
| "for_sections step s (Some sec # secs) =
     (case s_items sec of
        None \<Rightarrow>
          (case for_sections step s secs of
             Inl err \<Rightarrow> Inl err
           | Inr (secs', c', s'') \<Rightarrow> Inr (Some sec # secs', c', s''))
      | Some items \<Rightarrow>
          (case for_items step s items of
             Inl err \<Rightarrow> Inl err
           | Inr (items', c, s') \<Rightarrow>
               (case for_sections step s' secs of
                  Inl err \<Rightarrow> Inl err
                | Inr (secs', c', s'') \<Rightarrow>
                    Inr (Some (sec\<lparr>s_items := Some items'\<rparr>) # secs', c \<or> c', s''))))"

text \<open>
  \<open>const data = b.data || {}; if (!data.sections || !Array.isArray(data.sections)) continue;\<close>
  The result is the document to write back when \<open>changed\<close> was set, and \<open>None\<close> when
  the script issues no \<open>UPDATE\<close> for this BOQ.
\<close>

definition for_data ::
  "('s \<Rightarrow> item option \<Rightarrow> error + item \<times> bool \<times> 's) \<Rightarrow> 's \<Rightarrow> boq_data option
     \<Rightarrow> error + boq_data option \<times> 's" where
  "for_data step s data =
     (case data of
        None \<Rightarrow> Inr (None, s)
      | Some d \<Rightarrow>
          (case d_sections d of
             None \<Rightarrow> Inr (None, s)
           | Some secs \<Rightarrow>
               (case for_sections step s secs of
                  Inl err \<Rightarrow> Inl err
                | Inr (secs', changed, s') \<Rightarrow>
                    Inr (if changed then Some (d\<lparr>d_sections := Some secs'\<rparr>) else None, s'))))"

section \<open>Unit Resolver and Migration Pipeline (\<open>migrate_units_names_to_ids.cjs\<close>)\<close>

text \<open>
  \<open>let match = units.find(u => u.name && u.name.toLowerCase js() === unitName.toLowerCase js());\<close>
  \<open>if (!match) match = units.find(u => u.abbreviation && u.abbreviation.toLowerCase js() === unitName.toLowerCase js());\<close>
\<close>

definition name_matches :: "engine \<Rightarrow> jstring \<Rightarrow> company_unit \<Rightarrow> bool" where
  "name_matches js unitName u \<longleftrightarrow> u_name u \<noteq> [] \<and> toLowerCase js (u_name u) = toLowerCase js unitName"

definition abbreviation_matches :: "engine \<Rightarrow> jstring \<Rightarrow> company_unit \<Rightarrow> bool" where
  "abbreviation_matches js unitName u \<longleftrightarrow>
     (case u_abbreviation u of
        None \<Rightarrow> False
      | Some a \<Rightarrow> a \<noteq> [] \<and> toLowerCase js a = toLowerCase js unitName)"

definition resolve :: "engine \<Rightarrow> company_unit list \<Rightarrow> jstring \<Rightarrow> company_unit option" where
  "resolve js units unitName =
     (case find (name_matches js unitName) units of
        Some match \<Rightarrow> Some match
      | None \<Rightarrow> find (abbreviation_matches js unitName) units)"

definition abbrev_of :: "engine \<Rightarrow> jstring \<Rightarrow> jstring" where
  "abbrev_of js unitName =
     (if length unitName \<le> 6 then unitName else toUpperCase js (take 3 unitName))"

text \<open>The body of the item loop; the state is the in-memory company_unit list and the store.\<close>

definition migrate_item ::
  "engine \<Rightarrow> (nat \<Rightarrow> jstring) \<Rightarrow> jstring \<Rightarrow> company_unit list \<times> db \<Rightarrow> item option
     \<Rightarrow> error + item \<times> bool \<times> company_unit list \<times> db" where
  "migrate_item js gen companyId st entry =
     (case entry of
        None \<Rightarrow> Inl TypeError
      | Some item \<Rightarrow>
          if truthy (it_unit_id item) then Inr (item, False, st)
          else
            let unitName = js_or (it_unit_name item) (it_unit item) in
            if \<not> truthy unitName then Inr (item, False, st)
            else
              (case resolve js (fst st) (str unitName) of
                 Some match \<Rightarrow>
                   Inr (item\<lparr>it_unit_id := Some (u_id match),
                              it_unit_name := Some (u_name match),
                              it_unit_abbreviation := js_or (u_abbreviation match) None\<rparr>,
                        True, st)
               | None \<Rightarrow>
                   (case insert_unit gen companyId (str unitName) (abbrev_of js (str unitName)) (snd st) of
                      Inl err \<Rightarrow> Inl err
                    | Inr (newUnit, d') \<Rightarrow>
                        Inr (item\<lparr>it_unit_id := Some (u_id newUnit),
                                   it_unit_name := Some (u_name newUnit),
                                   it_unit_abbreviation := js_or (u_abbreviation newUnit) None\<rparr>,
                             True, fst st @ [newUnit], d'))))"

text \<open>
  One BOQ of the company: the loops, then
  \<open>if (changed) UPDATE boqs SET data = $1, updated_at = NOW() WHERE id = $2\<close>.
\<close>

definition migrate_boq ::
  "engine \<Rightarrow> (nat \<Rightarrow> jstring) \<Rightarrow> jstring \<Rightarrow> company_unit list \<times> db \<Rightarrow> boq \<Rightarrow> error + company_unit list \<times> db" where
  "migrate_boq js gen companyId st b =
     (case for_data (migrate_item js gen companyId) st (b_data b) of
        Inl err \<Rightarrow> Inl err
      | Inr (None, st') \<Rightarrow> Inr st'
      | Inr (Some data, units, d) \<Rightarrow> Inr (units, update_boq (b_id b) data d))"

fun migrate_boqs ::
  "engine \<Rightarrow> (nat \<Rightarrow> jstring) \<Rightarrow> jstring \<Rightarrow> company_unit list \<times> db \<Rightarrow> boq list \<Rightarrow> error + company_unit list \<times> db" where
  "migrate_boqs js gen companyId st [] = Inr st"
| "migrate_boqs js gen companyId st (b # bs) =
     (case migrate_boq js gen companyId st b of
        Inl err \<Rightarrow> Inl err
      | Inr st' \<Rightarrow> migrate_boqs js gen companyId st' bs)"

text \<open>
  One company: its units and its BOQs are loaded, then each BOQ is dealt with in turn; the
  unit list lives until the company is done.
\<close>

definition migrate_company :: "engine \<Rightarrow> (nat \<Rightarrow> jstring) \<Rightarrow> db \<Rightarrow> jstring \<Rightarrow> error + db" where
  "migrate_company js gen d companyId =
     (case migrate_boqs js gen companyId (select_units companyId d, d) (select_boqs companyId d) of
        Inl err \<Rightarrow> Inl err
      | Inr (units, d') \<Rightarrow> Inr d')"

fun migrate_companies :: "engine \<Rightarrow> (nat \<Rightarrow> jstring) \<Rightarrow> db \<Rightarrow> jstring list \<Rightarrow> error + db" where
  "migrate_companies js gen d [] = Inr d"
| "migrate_companies js gen d (c # cs) =
     (case migrate_company js gen d c of
        Inl err \<Rightarrow> Inl err
      | Inr d' \<Rightarrow> migrate_companies js gen d' cs)"

text \<open>
  The whole run is one transaction: \<open>COMMIT\<close> and exit code 0, or \<open>ROLLBACK\<close> to the
  store as it was and exit code 1.
\<close>

definition migrate_units_names_to_ids :: "engine \<Rightarrow> (nat \<Rightarrow> jstring) \<Rightarrow> db \<Rightarrow> db \<times> nat" where
  "migrate_units_names_to_ids js gen d =
     (case migrate_companies js gen d (db_companies d) of
        Inl err \<Rightarrow> (d, 1)
      | Inr d' \<Rightarrow> (d', 0))"

section \<open>Normalization Runner (\<open>units_normalize_runner.cjs\<close>)\<close>

text \<open>\<open>u.abbreviation || u.name\<close>\<close>

definition abbreviation_or_name :: "company_unit \<Rightarrow> jstring" where
  "abbreviation_or_name u = or_else (u_abbreviation u) (u_name u)"

text \<open>
  The body of the item loop. The runner threads no state of its own through the loops
  (hence the state type \<open>unit\<close>); \<open>units\<close> is the list loaded for the company.
\<close>

definition normalize_item ::
  "engine \<Rightarrow> company_unit list \<Rightarrow> unit \<Rightarrow> item option \<Rightarrow> error + item \<times> bool \<times> unit" where
  "normalize_item js units s entry =
     (case entry of
        None \<Rightarrow> Inl TypeError
      | Some item \<Rightarrow>
          if \<not> truthy (it_unit_abbreviation item) then
            if truthy (it_unit_id item) then
              (case find (\<lambda>u. Some (u_id u) = it_unit_id item) units of
                 Some u \<Rightarrow>
                   Inr (item\<lparr>it_unit_abbreviation := Some (abbreviation_or_name u),
                              it_unit_name := Some (u_name u)\<rparr>, True, s)
               | None \<Rightarrow> Inr (item, False, s))
            else if truthy (it_unit_name item) then
              (case find (name_matches js (str (it_unit_name item))) units of
                 Some u \<Rightarrow>
                   Inr (item\<lparr>it_unit_id := Some (u_id u),
                              it_unit_abbreviation := Some (abbreviation_or_name u)\<rparr>, True, s)
               | None \<Rightarrow> Inr (item, False, s))
            else if truthy (it_unit item) then
              (case find (\<lambda>u. name_matches js (str (it_unit item)) u
                              \<or> abbreviation_matches js (str (it_unit item)) u) units of
                 Some u \<Rightarrow>
                   Inr (item\<lparr>it_unit_id := Some (u_id u),
                              it_unit_abbreviation := Some (abbreviation_or_name u),
                              it_unit_name := Some (u_name u)\<rparr>, True, s)
               | None \<Rightarrow> Inr (item, False, s))
            else Inr (item, False, s)
          else Inr (item, False, s))"

definition normalize_boq :: "engine \<Rightarrow> company_unit list \<Rightarrow> db \<Rightarrow> boq \<Rightarrow> error + db" where
  "normalize_boq js units d b =
     (case for_data (normalize_item js units) () (b_data b) of
        Inl err \<Rightarrow> Inl err
      | Inr (None, s) \<Rightarrow> Inr d
      | Inr (Some data, s) \<Rightarrow> Inr (update_boq (b_id b) data d))"

fun normalize_boqs :: "engine \<Rightarrow> company_unit list \<Rightarrow> db \<Rightarrow> boq list \<Rightarrow> error + db" where
  "normalize_boqs js units d [] = Inr d"
| "normalize_boqs js units d (b # bs) =
     (case normalize_boq js units d b of
        Inl err \<Rightarrow> Inl err
      | Inr d' \<Rightarrow> normalize_boqs js units d' bs)"

definition normalize_company :: "engine \<Rightarrow> db \<Rightarrow> jstring \<Rightarrow> error + db" where
  "normalize_company js d companyId =
     normalize_boqs js (select_units companyId d) d (select_boqs companyId d)"

fun normalize_companies :: "engine \<Rightarrow> db \<Rightarrow> jstring list \<Rightarrow> error + db" where
  "normalize_companies js d [] = Inr d"
| "normalize_companies js d (c # cs) =
     (case normalize_company js d c of
        Inl err \<Rightarrow> Inl err
      | Inr d' \<Rightarrow> normalize_companies js d' cs)"

definition units_normalize_runner :: "engine \<Rightarrow> db \<Rightarrow> db \<times> nat" where
  "units_normalize_runner js d =
     (case normalize_companies js d (db_companies d) of
        Inl err \<Rightarrow> (d, 1)
      | Inr d' \<Rightarrow> (d', 0))"

section \<open>Legacy Field Cleanup (\<open>cleanup_boq_legacy_units.cjs\<close>)\<close>

text \<open>
  \<open>if (item.unit_id && (item.unit || item.unit_name)) { delete item.unit; delete item.unit_name; changed = true; }\<close>
\<close>

definition cleanup_item :: "unit \<Rightarrow> item option \<Rightarrow> error + item \<times> bool \<times> unit" where
  "cleanup_item s entry =
     (case entry of
        None \<Rightarrow> Inl TypeError
      | Some item \<Rightarrow>
          if truthy (it_unit_id item) \<and> (truthy (it_unit item) \<or> truthy (it_unit_name item))
          then Inr (item\<lparr>it_unit := None, it_unit_name := None\<rparr>, True, s)
          else Inr (item, False, s))"

definition cleanup_boq :: "db \<Rightarrow> boq \<Rightarrow> error + db" where
  "cleanup_boq d b =
     (case for_data cleanup_item () (b_data b) of
        Inl err \<Rightarrow> Inl err
      | Inr (None, s) \<Rightarrow> Inr d
      | Inr (Some data, s) \<Rightarrow> Inr (update_boq (b_id b) data d))"

fun cleanup_boqs :: "db \<Rightarrow> boq list \<Rightarrow> error + db" where
  "cleanup_boqs d [] = Inr d"
| "cleanup_boqs d (b # bs) =
     (case cleanup_boq d b of
        Inl err \<Rightarrow> Inl err
      | Inr d' \<Rightarrow> cleanup_boqs d' bs)"

text \<open>The cleanup loads every BOQ at once (\<open>SELECT id, data FROM boqs\<close>).\<close>

definition cleanup_boq_legacy_units :: "db \<Rightarrow> db \<times> nat" where
  "cleanup_boq_legacy_units d =
     (case cleanup_boqs d (db_boqs d) of
        Inl err \<Rightarrow> (d, 1)
      | Inr d' \<Rightarrow> (d', 0))"

section \<open>Document Renderer (\<open>BOQs.tsx\<close>, \<open>boqPdfGenerator.ts\<close>)\<close>

text \<open>The unit cell of the viewing table.\<close>

definition viewer_unit :: "company_unit list \<Rightarrow> item \<Rightarrow> jstring" where
  "viewer_unit units it =
     (case (if truthy (it_unit_id it)
            then find (\<lambda>x. Some (u_id x) = it_unit_id it) units else None) of
        Some u \<Rightarrow> abbreviation_or_name u
      | None \<Rightarrow>
          if truthy (it_unit_name it) then str (it_unit_name it)
          else if truthy (it_unit it) then str (it_unit it)
          else (lit ''-''))"

text \<open>
  The row \<open>downloadBOQPDF\<close> builds for an item (\<open>safeN\<close> changes no number of a JSON document):
  \<open>unit_of_measure: it.unit_name || it.unit || 'Item'\<close>,
  \<open>unit_abbreviation: (it.unit_abbreviation || '')\<close>. The generator receives the
  document and the company's letterhead, not the unit list.
\<close>

record flat_item =
  f_description :: "jstring option"
  f_quantity :: rat
  f_unit_price :: rat
  f_line_total :: rat
  f_unit_of_measure :: jstring
  f_unit_abbreviation :: jstring

definition flat_item_of :: "item \<Rightarrow> flat_item" where
  "flat_item_of it =
     (let qty = (case it_quantity it of None \<Rightarrow> 1 | Some q \<Rightarrow> q);
          rate = (case it_rate it of
                    None \<Rightarrow> (case it_amount it of None \<Rightarrow> 0 | Some a \<Rightarrow> a)
                  | Some r \<Rightarrow> r);
          amount = (case it_amount it of None \<Rightarrow> qty * rate | Some a \<Rightarrow> a)
      in \<lparr>f_description = it_description it,
          f_quantity = qty,
          f_unit_price = rate,
          f_line_total = amount,
          f_unit_of_measure = or_else (js_or (it_unit_name it) (it_unit it)) (lit ''Item''),
          f_unit_abbreviation = or_else (it_unit_abbreviation it) []\<rparr>)"

section \<open>Export (\<open>export_boq_units_csv.cjs\<close>)\<close>






text \<open>
  The item index \<open>ii\<close> is a loop counter below the length of an array; \<open>join\<close> writes
  such an integer in decimal digits.
\<close>

fun digits :: "nat \<Rightarrow> jstring" where
  "digits n = (if n < 10 then [48 + n] else digits (n div 10) @ [48 + n mod 10])"










section \<open>The specification's vocabulary\<close>

text \<open>
  A field is \<^emph>\<open>set\<close> when it is truthy, which is how every script tests it. Two
  strings match case-insensitively when their lower-case forms are equal.
\<close>

definition ci_eq :: "engine \<Rightarrow> jstring \<Rightarrow> jstring \<Rightarrow> bool" where
  "ci_eq js a b \<longleftrightarrow> toLowerCase js a = toLowerCase js b"

definition name_ci :: "engine \<Rightarrow> jstring \<Rightarrow> company_unit \<Rightarrow> bool" where
  "name_ci js token u \<longleftrightarrow> ci_eq js (u_name u) token"

definition abbreviation_ci :: "engine \<Rightarrow> jstring \<Rightarrow> company_unit \<Rightarrow> bool" where
  "abbreviation_ci js token u \<longleftrightarrow>
     (case u_abbreviation u of None \<Rightarrow> False | Some a \<Rightarrow> ci_eq js a token)"

section \<open>Example data\<close>

text \<open>
  An engine to run the examples with. Its case mappings are those of Unicode on the code
  units below 256 (Basic Latin and Latin-1 Supplement) and leave every other code unit
  alone. Its number text is that of \<open>Number::toString\<close> for a number of at most 15
  significant decimal digits in the range of the normal doubles: \<open>decimal_form ds n\<close>
  is the text of the number with the decimal digits \<open>ds\<close> (the last one not 0) and the
  decimal point after the \<open>n\<close>-th of them.
\<close>

definition lower_unit :: "nat \<Rightarrow> nat" where
  "lower_unit c =
     (if (65 \<le> c \<and> c \<le> 90) \<or> (192 \<le> c \<and> c \<le> 222 \<and> c \<noteq> 215) then c + 32 else c)"

definition upper_units :: "nat \<Rightarrow> jstring" where
  "upper_units c =
     (if (97 \<le> c \<and> c \<le> 122) \<or> (224 \<le> c \<and> c \<le> 254 \<and> c \<noteq> 247) then [c - 32]
      else if c = 223 then [83, 83]
      else if c = 255 then [376]
      else if c = 181 then [924]
      else [c])"

fun scale :: "nat \<Rightarrow> int \<Rightarrow> int \<Rightarrow> int \<Rightarrow> int \<times> int" where
  "scale 0 a b m = (a div b, m)"
| "scale (Suc fuel) a b m =
     (if a mod b = 0 then (a div b, m) else scale fuel (10 * a) b (m + 1))"

function int_digits :: "int \<Rightarrow> jstring" where
  "int_digits w =
     (if w < 10 then [nat (48 + w)] else int_digits (w div 10) @ [nat (48 + w mod 10)])"
  by pat_completeness auto
termination
  by (relation "measure nat") auto

definition decimal_form :: "jstring \<Rightarrow> int \<Rightarrow> jstring" where
  "decimal_form ds n =
     (let k = int (length ds) in
      if k \<le> n \<and> n \<le> 21 then ds @ replicate (nat (n - k)) 48
      else if 0 < n \<and> n \<le> 21 then take (nat n) ds @ [46] @ drop (nat n) ds
      else if - 6 < n \<and> n \<le> 0 then [48, 46] @ replicate (nat (- n)) 48 @ ds
      else (if k = 1 then ds else hd ds # 46 # tl ds)
           @ [101] @ (if 0 \<le> n - 1 then [43] else [45]) @ int_digits \<bar>n - 1\<bar>)"

definition positive_text :: "rat \<Rightarrow> jstring" where
  "positive_text q =
     (case quotient_of q of (a, b) \<Rightarrow>
        (case scale 400 a b 0 of (w, m) \<Rightarrow>
           (let ds = rev (dropWhile (\<lambda>c. c = 48) (rev (int_digits w)))
            in decimal_form ds (int (length (int_digits w)) - m))))"

definition number_text :: "rat \<Rightarrow> jstring" where
  "number_text q =
     (if q = 0 then [48] else if q < 0 then 45 # positive_text (- q) else positive_text q)"

definition example_engine :: engine where
  "example_engine = \<lparr>toLowerCase = map lower_unit,
                      toUpperCase = (\<lambda>s. concat (map upper_units s)),
                      numberToString = number_text\<rparr>"

definition u_kg :: company_unit where
  "u_kg = \<lparr>u_id = lit ''u1'', u_name = lit ''kg'', u_abbreviation = Some (lit ''M3'')\<rparr>"

definition u_m3 :: company_unit where
  "u_m3 = \<lparr>u_id = lit ''u2'', u_name = lit ''m3'', u_abbreviation = None\<rparr>"

definition example_gen :: "nat \<Rightarrow> jstring" where
  "example_gen n = (lit ''unit-'') @ digits n"

definition no_item :: item where
  "no_item = \<lparr>it_description = None, it_quantity = None, it_rate = None,
     it_line_total = None, it_amount = None, it_unit = None, it_unit_name = None,
     it_unit_id = None, it_unit_abbreviation = None\<rparr>"

definition item_excavation :: item where
  "item_excavation = no_item\<lparr>it_description := Some (lit ''Excavation''), it_quantity := Some 10,
     it_rate := Some 1500, it_unit := Some (lit ''m3'')\<rparr>"

definition item_square :: item where
  "item_square = no_item\<lparr>it_description := Some (lit ''Plaster''), it_unit_name := Some (lit ''Square Meters'')\<rparr>"

definition boq_of_items :: "jstring \<Rightarrow> jstring \<Rightarrow> item option list \<Rightarrow> boq" where
  "boq_of_items bid companyId items =
     \<lparr>b_id = bid, b_number = Some (lit ''BOQ-0001''), b_company_id = Some companyId,
      b_data = Some \<lparr>d_notes = None,
                      d_sections = Some [Some \<lparr>s_title = Some (lit ''Bill 1''), s_items = Some items\<rparr>]\<rparr>\<rparr>"

definition store_excavation :: db where
  "store_excavation = \<lparr>db_companies = [lit ''c1''], db_units = [],
     db_boqs = [boq_of_items (lit ''b1'') (lit ''c1'') [Some item_excavation]], db_next_id = 0\<rparr>"

text \<open>The states the end-to-end scenario passes through, for the id the store hands out.\<close>

definition item_migrated :: "jstring \<Rightarrow> item" where
  "item_migrated uid = item_excavation\<lparr>it_unit_id := Some uid, it_unit_name := Some (lit ''m3''),
     it_unit_abbreviation := Some (lit ''m3'')\<rparr>"

definition store_migrated :: "jstring \<Rightarrow> db" where
  "store_migrated uid = \<lparr>db_companies = [lit ''c1''],
     db_units = [\<lparr>ur_id = uid, ur_company_id = Some (lit ''c1''), ur_name = lit ''m3'',
                  ur_abbreviation = Some (lit ''m3'')\<rparr>],
     db_boqs = [boq_of_items (lit ''b1'') (lit ''c1'') [Some (item_migrated uid)]], db_next_id = 1\<rparr>"

definition store_cleaned :: "jstring \<Rightarrow> db" where
  "store_cleaned uid = (store_migrated uid)\<lparr>db_boqs :=
     [boq_of_items (lit ''b1'') (lit ''c1'') [Some ((item_migrated uid)\<lparr>it_unit := None, it_unit_name := None\<rparr>)]]\<rparr>"

text \<open>An item as the BOQ form stores it, and the unit it refers to.\<close>

definition u_cubic :: company_unit where
  "u_cubic = \<lparr>u_id = lit ''u7'', u_name = lit ''Cubic metres'', u_abbreviation = Some (lit ''m3'')\<rparr>"

definition item_cubic :: item where
  "item_cubic = no_item\<lparr>it_description := Some (lit ''Concrete''), it_unit_id := Some (lit ''u7''),
     it_unit_name := Some (lit ''Cubic metres'')\<rparr>"

text \<open>
  The unit \<open>METRE\<close> spelt with an E grave (code unit 200, whose lower case is 232), and
  an item whose \<open>unit_name\<close> is more than six code units long with an e grave among its
  first three.
\<close>

definition u_metre :: company_unit where
  "u_metre = \<lparr>u_id = lit ''u5'', u_name = lit ''M'' @ [200] @ lit ''TRE'', u_abbreviation = None\<rparr>"

definition item_metres :: item where
  "item_metres = no_item\<lparr>it_description := Some (lit ''Trench''),
     it_unit_name := Some (lit ''m'' @ [232] @ lit ''tres cubes'')\<rparr>"

text \<open>An item that refers to a unit and carries an empty legacy \<open>unit\<close>.\<close>

definition item_empty_unit :: item where
  "item_empty_unit = no_item\<lparr>it_description := Some (lit ''Paint''), it_unit_id := Some (lit ''u1''),
     it_unit := Some []\<rparr>"

definition store_empty_unit :: db where
  "store_empty_unit = \<lparr>db_companies = [lit ''c1''], db_units = [],
     db_boqs = [boq_of_items (lit ''b1'') (lit ''c1'') [Some item_empty_unit]], db_next_id = 0\<rparr>"

section \<open>Relating a store before and after a run\<close>

text \<open>
  \<open>boq_rel Q b b'\<close>: the BOQ rows \<open>b\<close> and \<open>b'\<close> have the same columns and the same
  document shape (sections, titles, notes, number and positions of items), and each item
  of \<open>b\<close> is related by \<open>Q\<close> to the item at its position in \<open>b'\<close>.
\<close>

definition items_rel :: "(item \<Rightarrow> item \<Rightarrow> bool) \<Rightarrow> item option list \<Rightarrow> item option list \<Rightarrow> bool" where
  "items_rel Q = list_all2 (rel_option Q)"

definition section_rel :: "(item \<Rightarrow> item \<Rightarrow> bool) \<Rightarrow> boq_section \<Rightarrow> boq_section \<Rightarrow> bool" where
  "section_rel Q sec sec' \<longleftrightarrow>
     s_title sec' = s_title sec \<and> rel_option (items_rel Q) (s_items sec) (s_items sec')"

definition sections_rel ::
  "(item \<Rightarrow> item \<Rightarrow> bool) \<Rightarrow> boq_section option list \<Rightarrow> boq_section option list \<Rightarrow> bool" where
  "sections_rel Q = list_all2 (rel_option (section_rel Q))"

definition data_rel :: "(item \<Rightarrow> item \<Rightarrow> bool) \<Rightarrow> boq_data \<Rightarrow> boq_data \<Rightarrow> bool" where
  "data_rel Q d d' \<longleftrightarrow>
     d_notes d' = d_notes d \<and> rel_option (sections_rel Q) (d_sections d) (d_sections d')"

definition boq_rel :: "(item \<Rightarrow> item \<Rightarrow> bool) \<Rightarrow> boq \<Rightarrow> boq \<Rightarrow> bool" where
  "boq_rel Q b b' \<longleftrightarrow>
     b_id b' = b_id b \<and> b_number b' = b_number b \<and> b_company_id b' = b_company_id b
     \<and> rel_option (data_rel Q) (b_data b) (b_data b')"

text \<open>
  \<open>rows_rel P R\<close>: two versions of the \<open>boqs\<close> table agree row by row, a row selected by
  \<open>P\<close> being related by \<open>R\<close> to its new version and every other row being unchanged.
\<close>

definition rows_rel :: "(boq \<Rightarrow> bool) \<Rightarrow> (boq \<Rightarrow> boq \<Rightarrow> bool) \<Rightarrow> boq list \<Rightarrow> boq list \<Rightarrow> bool" where
  "rows_rel P R = list_all2 (\<lambda>x y. if P x then R x y else y = x)"

text \<open>
  What the proofs ask of a loop body: from a state satisfying \<open>I\<close> it leads to a state
  satisfying \<open>I\<close> that extends it (\<open>ext\<close>), it was given an item, the item it returns is
  related to that item by \<open>Q\<close> as seen from the new state, and when it does not set
  \<open>changed\<close> it returns the item and the state as they were.
\<close>

definition step_ok ::
  "('s \<Rightarrow> bool) \<Rightarrow> ('s \<Rightarrow> 's \<Rightarrow> bool) \<Rightarrow> ('s \<Rightarrow> item \<Rightarrow> item \<Rightarrow> bool)
     \<Rightarrow> ('s \<Rightarrow> item option \<Rightarrow> error + item \<times> bool \<times> 's) \<Rightarrow> bool" where
  "step_ok I ext Q step \<longleftrightarrow>
     (\<forall>s e it' c s'. I s \<and> step s e = Inr (it', c, s') \<longrightarrow>
        I s' \<and> ext s s' \<and> (\<exists>it. e = Some it \<and> Q s' it it' \<and> (\<not> c \<longrightarrow> it' = it \<and> s' = s)))
     \<and> (\<forall>s. ext s s)
     \<and> (\<forall>a b c. ext a b \<and> ext b c \<longrightarrow> ext a c)
     \<and> (\<forall>a b it it'. Q a it it' \<and> ext a b \<longrightarrow> Q b it it')"

text \<open>
  What Cleanup does to an item. An item whose \<open>unit_id\<close> is set and whose \<open>unit\<close> or
  \<open>unit_name\<close> is set loses \<open>unit\<close> and \<open>unit_name\<close> and nothing else. Every other
  item is left as it is: one whose \<open>unit_id\<close> is not set, and one whose \<open>unit\<close> and
  \<open>unit_name\<close> are both not set (absent, \<open>null\<close> or the empty string).
\<close>

definition cleanup_post :: "item \<Rightarrow> item \<Rightarrow> bool" where
  "cleanup_post it it' \<longleftrightarrow>
     (truthy (it_unit_id it) \<and> (truthy (it_unit it) \<or> truthy (it_unit_name it))
        \<longrightarrow> it' = it\<lparr>it_unit := None, it_unit_name := None\<rparr>)
     \<and> (\<not> truthy (it_unit_id it) \<longrightarrow> it' = it)
     \<and> (\<not> truthy (it_unit it) \<and> \<not> truthy (it_unit_name it) \<longrightarrow> it' = it)"

text \<open>The parts of the store no \<open>UPDATE boqs\<close> touches.\<close>

definition same_units :: "db \<Rightarrow> db \<Rightarrow> bool" where
  "same_units d d' \<longleftrightarrow>
     db_companies d' = db_companies d \<and> db_units d' = db_units d \<and> db_next_id d' = db_next_id d"

text \<open>A document without a \<open>null\<close> section and without a \<open>null\<close> entry in an \<open>items\<close> array.\<close>

definition no_null_sections :: "boq_section option list \<Rightarrow> bool" where
  "no_null_sections secs \<longleftrightarrow>
     (\<forall>x \<in> set secs. case x of
        None \<Rightarrow> False
      | Some sec \<Rightarrow> (case s_items sec of None \<Rightarrow> True | Some items \<Rightarrow> None \<notin> set items))"

definition no_nulls :: "boq_data option \<Rightarrow> bool" where
  "no_nulls data \<longleftrightarrow>
     (case data of
        None \<Rightarrow> True
      | Some d \<Rightarrow> (case d_sections d of None \<Rightarrow> True | Some secs \<Rightarrow> no_null_sections secs))"

text \<open>
  The anomaly of C10: \<open>sections\<close> is an array, one of its sections has an array
  \<open>items\<close>, and that array has a \<open>null\<close> entry.
\<close>

definition has_null_item :: "boq_data option \<Rightarrow> bool" where
  "has_null_item data \<longleftrightarrow>
     (case data of
        None \<Rightarrow> False
      | Some d \<Rightarrow>
          (case d_sections d of
             None \<Rightarrow> False
           | Some secs \<Rightarrow>
               (\<exists>x \<in> set secs. case x of
                  None \<Rightarrow> False
                | Some sec \<Rightarrow> (case s_items sec of None \<Rightarrow> False | Some items \<Rightarrow> None \<in> set items))))"

text \<open>The item the Normalization Runner leaves in place of \<open>it\<close>, given the unit list.\<close>

definition normalized :: "engine \<Rightarrow> company_unit list \<Rightarrow> item \<Rightarrow> item" where
  "normalized js units it =
     (case normalize_item js units () (Some it) of Inl err \<Rightarrow> it | Inr (it', c, s) \<Rightarrow> it')"

text \<open>
  \<open>normalized_boq js d b b'\<close>: \<open>b'\<close> is the row \<open>b\<close> of a company with every item replaced
  by its normalised form for the units of that company in \<open>d\<close>, and \<open>b\<close> has no
  \<open>null\<close> entry.
\<close>

definition normalized_boq :: "engine \<Rightarrow> db \<Rightarrow> boq \<Rightarrow> boq \<Rightarrow> bool" where
  "normalized_boq js d b b' \<longleftrightarrow>
     (\<exists>c. b_company_id b = Some c \<and> no_nulls (b_data b)
          \<and> boq_rel (\<lambda>it it'. it' = normalized js (select_units c d) it) b b')"





text \<open>
  The items the Migration Pipeline skips: \<open>unit_id\<close> is set, or there is no token
  (neither \<open>unit_name\<close> nor \<open>unit\<close> is set).
\<close>

definition skipped :: "item \<Rightarrow> bool" where
  "skipped it \<longleftrightarrow> truthy (it_unit_id it) \<or> \<not> truthy (js_or (it_unit_name it) (it_unit it))"

text \<open>
  \<open>migrated js c d it it'\<close>: the pipeline, working for company \<open>c\<close>, skipped the item, or
  it rewrote the item from a row of \<open>units\<close> in \<open>d\<close> that belongs to \<open>c\<close> and whose name
  or abbreviation matches the item's token.
\<close>

definition migrated :: "engine \<Rightarrow> jstring \<Rightarrow> db \<Rightarrow> item \<Rightarrow> item \<Rightarrow> bool" where
  "migrated js c d it it' \<longleftrightarrow>
     (skipped it \<and> it' = it)
     \<or> (\<not> skipped it
        \<and> (\<exists>r \<in> set (db_units d).
              ur_company_id r = Some c
              \<and> (name_matches js (str (js_or (it_unit_name it) (it_unit it))) (row_unit r)
                 \<or> abbreviation_matches js (str (js_or (it_unit_name it) (it_unit it))) (row_unit r))
              \<and> it' = it\<lparr>it_unit_id := Some (ur_id r), it_unit_name := Some (ur_name r),
                          it_unit_abbreviation := js_or (ur_abbreviation r) None\<rparr>))"

definition migrated_boq :: "engine \<Rightarrow> db \<Rightarrow> boq \<Rightarrow> boq \<Rightarrow> bool" where
  "migrated_boq js d b b' \<longleftrightarrow>
     (\<exists>c. b_company_id b = Some c \<and> no_nulls (b_data b) \<and> boq_rel (migrated js c d) b b')"

text \<open>What a run of the pipeline keeps of the store: the companies, and every unit row.\<close>

definition units_grow :: "db \<Rightarrow> db \<Rightarrow> bool" where
  "units_grow d d' \<longleftrightarrow>
     db_companies d' = db_companies d \<and> set (db_units d) \<subseteq> set (db_units d')"

text \<open>
  \<open>own_unit co d it it'\<close>: the item is unchanged, or it now carries the id of a row of
  \<open>units\<close> in \<open>d\<close> that belongs to the company \<open>co\<close>, its \<open>unit_name\<close> and
  \<open>unit_abbreviation\<close> are unchanged or taken from that row, and no other field changed.
\<close>

definition own_unit :: "jstring option \<Rightarrow> db \<Rightarrow> item \<Rightarrow> item \<Rightarrow> bool" where
  "own_unit co d it it' \<longleftrightarrow>
     it' = it
     \<or> (\<exists>r \<in> set (db_units d).
          ur_company_id r = co \<and> co \<noteq> None
          \<and> it_unit_id it' = Some (ur_id r)
          \<and> (it_unit_name it' = it_unit_name it \<or> it_unit_name it' = Some (ur_name r))
          \<and> (it_unit_abbreviation it' = it_unit_abbreviation it
             \<or> it_unit_abbreviation it' = js_or (ur_abbreviation r) None
             \<or> it_unit_abbreviation it' = Some (or_else (ur_abbreviation r) (ur_name r)))
          \<and> it' = it\<lparr>it_unit_id := it_unit_id it', it_unit_name := it_unit_name it',
                      it_unit_abbreviation := it_unit_abbreviation it'\<rparr>)"

text \<open>Two companies whose unit names collide, each with a legacy item for that name.\<close>

definition store_two_companies :: db where
  "store_two_companies = \<lparr>db_companies = [lit ''cA'', lit ''cB''],
     db_units = [\<lparr>ur_id = lit ''uA'', ur_company_id = Some (lit ''cA''), ur_name = lit ''m3'',
                  ur_abbreviation = Some (lit ''cu.m'')\<rparr>,
                 \<lparr>ur_id = lit ''uB'', ur_company_id = Some (lit ''cB''), ur_name = lit ''M3'',
                  ur_abbreviation = None\<rparr>],
     db_boqs = [boq_of_items (lit ''b1'') (lit ''cA'') [Some item_excavation],
                boq_of_items (lit ''b2'') (lit ''cB'') [Some item_excavation, Some item_square]],
     db_next_id = 2\<rparr>"

text \<open>A BOQ whose \<open>items\<close> array has a \<open>null\<close> entry.\<close>

definition store_null_item :: db where
  "store_null_item = \<lparr>db_companies = [lit ''c1''], db_units = [],
     db_boqs = [boq_of_items (lit ''b1'') (lit ''c1'') [Some item_excavation, None]], db_next_id = 0\<rparr>"

section \<open>Reading the exported CSV back\<close>


















section \<open>Unit Resolver\<close>

lemma lit_simps [simp]: "lit [] = []" "lit (c # cs) = of_char c # lit cs"
  by (simp_all add: lit_def)

lemma name_matches_ci:
  assumes "token \<noteq> []" and "\<And>s. toLowerCase js s = [] \<longleftrightarrow> s = []"
  shows "name_matches js token u = name_ci js token u"
proof (cases "u_name u = []")
  case True
  then have "toLowerCase js (u_name u) = []" using assms(2) by simp
  moreover have "toLowerCase js token \<noteq> []" using assms by simp
  ultimately show ?thesis using True by (simp add: name_matches_def name_ci_def ci_eq_def)
next
  case False
  then show ?thesis by (simp add: name_matches_def name_ci_def ci_eq_def)
qed

lemma abbreviation_matches_ci:
  assumes "token \<noteq> []" and "\<And>s. toLowerCase js s = [] \<longleftrightarrow> s = []"
  shows "abbreviation_matches js token u = abbreviation_ci js token u"
proof (cases "u_abbreviation u")
  case None
  then show ?thesis by (simp add: abbreviation_matches_def abbreviation_ci_def)
next
  case (Some a)
  show ?thesis
  proof (cases "a = []")
    case True
    then have "toLowerCase js a = []" using assms(2) by simp
    moreover have "toLowerCase js token \<noteq> []" using assms by simp
    ultimately show ?thesis using True Some
      by (simp add: abbreviation_matches_def abbreviation_ci_def ci_eq_def)
  next
    case False
    then show ?thesis using Some
      by (simp add: abbreviation_matches_def abbreviation_ci_def ci_eq_def)
  qed
qed

text \<open>
  C6. Two strings match case-insensitively when \<open>toLowerCase\<close> gives the same string
  for both, which is the comparison the script makes. Whatever the engine's \<open>toLowerCase\<close>
  is, provided that it gives the empty string for the empty string only (JavaScript's maps
  every code point to at least one): for a non-empty token, \<open>resolve\<close> returns the first
  unit of the list whose name matches the token case-insensitively; if no name matches,
  the first unit whose abbreviation matches case-insensitively; and nothing
  (\<open>NOT_FOUND\<close>) if no unit matches either way. The first clause holds whatever
  abbreviations earlier units have, so a name match on a later unit beats an abbreviation
  match on an earlier one.
\<close>

theorem resolve_matching_order:
  assumes "unitName \<noteq> []" and "\<And>s. toLowerCase js s = [] \<longleftrightarrow> s = []"
  shows "(\<forall>i < length units.
            name_ci js unitName (units ! i) \<and> (\<forall>j < i. \<not> name_ci js unitName (units ! j))
            \<longrightarrow> resolve js units unitName = Some (units ! i))
       \<and> ((\<forall>u \<in> set units. \<not> name_ci js unitName u) \<longrightarrow>
            (\<forall>i < length units.
               abbreviation_ci js unitName (units ! i)
               \<and> (\<forall>j < i. \<not> abbreviation_ci js unitName (units ! j))
               \<longrightarrow> resolve js units unitName = Some (units ! i)))
       \<and> ((\<forall>u \<in> set units. \<not> name_ci js unitName u \<and> \<not> abbreviation_ci js unitName u)
            \<longrightarrow> resolve js units unitName = None)"
proof -
  have nm: "name_matches js unitName = name_ci js unitName"
    by (rule ext) (rule name_matches_ci[OF assms])
  have ab: "abbreviation_matches js unitName = abbreviation_ci js unitName"
    by (rule ext) (rule abbreviation_matches_ci[OF assms])
  have 1: "resolve js units unitName = Some (units ! i)"
    if "i < length units" "name_ci js unitName (units ! i)"
       "\<forall>j < i. \<not> name_ci js unitName (units ! j)" for i
  proof -
    have "find (name_ci js unitName) units = Some (units ! i)"
      unfolding find_Some_iff using that by blast
    then show ?thesis by (simp add: resolve_def nm)
  qed
  have 2: "resolve js units unitName = Some (units ! i)"
    if "\<forall>u \<in> set units. \<not> name_ci js unitName u" "i < length units"
       "abbreviation_ci js unitName (units ! i)"
       "\<forall>j < i. \<not> abbreviation_ci js unitName (units ! j)" for i
  proof -
    have "find (name_ci js unitName) units = None"
      unfolding find_None_iff using that(1) by blast
    moreover have "find (abbreviation_ci js unitName) units = Some (units ! i)"
      unfolding find_Some_iff using that(2-4) by blast
    ultimately show ?thesis by (simp add: resolve_def nm ab)
  qed
  have 3: "resolve js units unitName = None"
    if "\<forall>u \<in> set units. \<not> name_ci js unitName u \<and> \<not> abbreviation_ci js unitName u"
  proof -
    have "find (name_ci js unitName) units = None"
      "find (abbreviation_ci js unitName) units = None"
      unfolding find_None_iff using that by blast+
    then show ?thesis by (simp add: resolve_def nm ab)
  qed
  from 1 2 3 show ?thesis by blast
qed

lemma example_lower_Nil: "toLowerCase example_engine s = [] \<longleftrightarrow> s = []"
  by (simp add: example_engine_def)

theorem resolve_matching_order_witness:
  "lit ''M3'' \<noteq> [] \<and> resolve example_engine [u_kg, u_m3] (lit ''M3'') = Some u_m3
   \<and> resolve example_engine [u_kg] (lit ''m3'') = Some u_kg
   \<and> resolve example_engine [u_kg, u_m3] (lit ''ton'') = None
   \<and> resolve example_engine [u_kg, u_metre] (lit ''m'' @ [232] @ lit ''tre'') = Some u_metre"
proof -
  let ?js = example_engine
  let ?metre = "lit ''m'' @ [232] @ lit ''tre''"
  have ne: "lit ''M3'' \<noteq> []" "lit ''m3'' \<noteq> []" "lit ''ton'' \<noteq> []" "?metre \<noteq> []"
    by simp_all
  have kg: "\<not> name_ci ?js (lit ''M3'') u_kg" "\<not> name_ci ?js (lit ''m3'') u_kg"
    "abbreviation_ci ?js (lit ''m3'') u_kg"
    "\<not> name_ci ?js (lit ''ton'') u_kg" "\<not> abbreviation_ci ?js (lit ''ton'') u_kg"
    "\<not> name_ci ?js ?metre u_kg"
    by code_simp+
  have m3: "name_ci ?js (lit ''M3'') u_m3" "\<not> name_ci ?js (lit ''ton'') u_m3"
    "\<not> abbreviation_ci ?js (lit ''ton'') u_m3" "name_ci ?js ?metre u_metre"
    by code_simp+
  have "1 < length [u_kg, u_m3] \<longrightarrow>
        name_ci ?js (lit ''M3'') ([u_kg, u_m3] ! 1)
        \<and> (\<forall>j < 1. \<not> name_ci ?js (lit ''M3'') ([u_kg, u_m3] ! j)) \<longrightarrow>
        resolve ?js [u_kg, u_m3] (lit ''M3'') = Some ([u_kg, u_m3] ! 1)"
    using resolve_matching_order[OF ne(1) example_lower_Nil, of "[u_kg, u_m3]"] by blast
  then have a: "resolve ?js [u_kg, u_m3] (lit ''M3'') = Some u_m3"
    using kg m3 by simp
  have "(\<forall>u \<in> set [u_kg]. \<not> name_ci ?js (lit ''m3'') u) \<longrightarrow> 0 < length [u_kg] \<longrightarrow>
        abbreviation_ci ?js (lit ''m3'') ([u_kg] ! 0)
        \<and> (\<forall>j < 0. \<not> abbreviation_ci ?js (lit ''m3'') ([u_kg] ! j)) \<longrightarrow>
        resolve ?js [u_kg] (lit ''m3'') = Some ([u_kg] ! 0)"
    using resolve_matching_order[OF ne(2) example_lower_Nil, of "[u_kg]"] by blast
  then have b: "resolve ?js [u_kg] (lit ''m3'') = Some u_kg"
    using kg by simp
  have "(\<forall>u \<in> set [u_kg, u_m3]. \<not> name_ci ?js (lit ''ton'') u \<and> \<not> abbreviation_ci ?js (lit ''ton'') u)
        \<longrightarrow> resolve ?js [u_kg, u_m3] (lit ''ton'') = None"
    using resolve_matching_order[OF ne(3) example_lower_Nil, of "[u_kg, u_m3]"] by blast
  then have c: "resolve ?js [u_kg, u_m3] (lit ''ton'') = None"
    using kg m3 by simp
  have "1 < length [u_kg, u_metre] \<longrightarrow>
        name_ci ?js ?metre ([u_kg, u_metre] ! 1)
        \<and> (\<forall>j < 1. \<not> name_ci ?js ?metre ([u_kg, u_metre] ! j)) \<longrightarrow>
        resolve ?js [u_kg, u_metre] ?metre = Some ([u_kg, u_metre] ! 1)"
    using resolve_matching_order[OF ne(4) example_lower_Nil, of "[u_kg, u_metre]"] by blast
  then have d: "resolve ?js [u_kg, u_metre] ?metre = Some u_metre"
    using kg m3 by simp
  from a b c d ne(1) show ?thesis by simp
qed

section \<open>Unit creation\<close>

lemma select_units_insert:
  assumes "insert_unit gen companyId name abbrev d = Inr (newUnit, d')"
  shows "select_units companyId d' = select_units companyId d @ [newUnit]"
  using assms
  by (auto simp: insert_unit_def select_units_def Let_def split: if_splits)

lemma resolve_None_no_row:
  assumes "resolve js (select_units companyId d) unitName = None" and "unitName \<noteq> []"
  shows "\<not> (\<exists>r \<in> set (db_units d). ur_company_id r = Some companyId \<and> ur_name r = unitName)"
proof
  assume "\<exists>r \<in> set (db_units d). ur_company_id r = Some companyId \<and> ur_name r = unitName"
  then obtain r where r: "r \<in> set (db_units d)" "ur_company_id r = Some companyId"
    "ur_name r = unitName" by blast
  then have "row_unit r \<in> set (select_units companyId d)"
    by (simp add: select_units_def)
  moreover have "name_matches js unitName (row_unit r)"
    using r(3) assms(2) by (simp add: name_matches_def row_unit_def)
  ultimately have "find (name_matches js unitName) (select_units companyId d) \<noteq> None"
    by (auto simp: find_None_iff)
  with assms(1) show False
    by (auto simp: resolve_def split: option.splits)
qed

lemma resolve_appended:
  assumes "resolve js units unitName = None" and "name_matches js unitName newUnit"
  shows "resolve js (units @ [newUnit]) unitName = Some newUnit"
proof -
  from assms(1) have "find (name_matches js unitName) units = None"
    by (simp add: resolve_def split: option.splits)
  then have "find (name_matches js unitName) (units @ [newUnit]) = Some newUnit"
    using assms(2) by (induction units) (auto split: if_splits)
  then show ?thesis by (simp add: resolve_def)
qed

text \<open>
  C7. Whatever the engine's case mappings are: an item without \<open>unit_id\<close> whose token
  (\<open>unit_name\<close>, else \<open>unit\<close>) is non-empty and matches no unit of the list loaded for
  the company makes the pipeline insert a unit whose name is the token verbatim and whose
  abbreviation is the token verbatim when it has at most 6 code units, else what
  \<open>toUpperCase\<close> gives for its first three code units. The unit is appended to the
  in-memory list, which still equals the company's rows of the store, and resolving the
  same token against the extended list finds the new unit, so a later item with that
  token creates no second unit. The item gets the new unit's id and name, and its
  abbreviation (\<open>newUnit.abbreviation || null\<close>).
\<close>

theorem creation_rule:
  assumes "\<not> truthy (it_unit_id item)"
    and "js_or (it_unit_name item) (it_unit item) = Some unitName"
    and "unitName \<noteq> []"
    and "units = select_units companyId d"
    and "resolve js units unitName = None"
  shows "\<exists>newUnit d'.
      migrate_item js gen companyId (units, d) (Some item) =
        Inr (item\<lparr>it_unit_id := Some (u_id newUnit), it_unit_name := Some unitName,
                   it_unit_abbreviation := js_or (u_abbreviation newUnit) None\<rparr>,
             True, units @ [newUnit], d')
    \<and> newUnit = \<lparr>u_id = gen (db_next_id d), u_name = unitName,
                  u_abbreviation = Some (if length unitName \<le> 6 then unitName
                                         else toUpperCase js (take 3 unitName))\<rparr>
    \<and> db_units d' = db_units d @ [\<lparr>ur_id = u_id newUnit, ur_company_id = Some companyId,
                                     ur_name = unitName, ur_abbreviation = u_abbreviation newUnit\<rparr>]
    \<and> select_units companyId d' = units @ [newUnit]
    \<and> resolve js (units @ [newUnit]) unitName = Some newUnit
    \<and> (\<forall>other. \<not> truthy (it_unit_id other)
          \<and> js_or (it_unit_name other) (it_unit other) = Some unitName \<longrightarrow>
          (\<exists>other'. migrate_item js gen companyId (units @ [newUnit], d') (Some other)
                      = Inr (other', True, units @ [newUnit], d')))"
proof -
  define row where "row = \<lparr>ur_id = gen (db_next_id d), ur_company_id = Some companyId,
                   ur_name = unitName, ur_abbreviation = Some (abbrev_of js unitName)\<rparr>"
  define d' where "d' = d\<lparr>db_units := db_units d @ [row], db_next_id := Suc (db_next_id d)\<rparr>"
  have ins: "insert_unit gen companyId unitName (abbrev_of js unitName) d = Inr (row_unit row, d')"
    using resolve_None_no_row[of js companyId d unitName] assms(3,4,5)
    by (simp add: insert_unit_def row_def d'_def Let_def)
  have run: "migrate_item js gen companyId (units, d) (Some item) =
        Inr (item\<lparr>it_unit_id := Some (u_id (row_unit row)), it_unit_name := Some unitName,
                   it_unit_abbreviation := js_or (u_abbreviation (row_unit row)) None\<rparr>,
             True, units @ [row_unit row], d')"
    using assms(1,2,3,5) ins
    by (simp add: migrate_item_def str_def row_unit_def row_def Let_def)
  have nm: "name_matches js unitName (row_unit row)"
    using assms(3) by (simp add: name_matches_def row_unit_def row_def)
  note found = resolve_appended[OF assms(5) nm]
  have later: "\<exists>other'. migrate_item js gen companyId (units @ [row_unit row], d') (Some other)
                      = Inr (other', True, units @ [row_unit row], d')"
    if "\<not> truthy (it_unit_id other)"
       "js_or (it_unit_name other) (it_unit other) = Some unitName" for other
    using that found assms(3) by (simp add: migrate_item_def str_def Let_def)
  show ?thesis
    apply (rule exI[of _ "row_unit row"], rule exI[of _ d'])
    using run select_units_insert[OF ins] found assms(4) later
    by (simp add: row_unit_def row_def d'_def abbrev_of_def)
qed

theorem creation_rule_witness:
  "\<exists>newUnit d'.
      migrate_item example_engine example_gen (lit ''c1'') ([], store_excavation) (Some item_metres) =
        Inr (item_metres\<lparr>it_unit_id := Some (lit ''unit-0''),
                          it_unit_name := Some (lit ''m'' @ [232] @ lit ''tres cubes''),
                          it_unit_abbreviation := Some (lit ''M'' @ [200] @ lit ''T'')\<rparr>,
             True, [newUnit], d')
    \<and> newUnit = \<lparr>u_id = lit ''unit-0'', u_name = lit ''m'' @ [232] @ lit ''tres cubes'',
                  u_abbreviation = Some (lit ''M'' @ [200] @ lit ''T'')\<rparr>
    \<and> resolve example_engine [newUnit] (lit ''m'' @ [232] @ lit ''tres cubes'') = Some newUnit"
proof -
  let ?t = "lit ''m'' @ [232] @ lit ''tres cubes''"
  have h1: "\<not> truthy (it_unit_id item_metres)" by code_simp
  have h2: "js_or (it_unit_name item_metres) (it_unit item_metres) = Some ?t"
    by code_simp
  have h3: "?t \<noteq> []" by simp
  have h4: "[] = select_units (lit ''c1'') store_excavation" by code_simp
  have h5: "resolve example_engine [] ?t = None" by code_simp
  have e1: "example_gen (db_next_id store_excavation) = lit ''unit-0''" by code_simp
  have e2: "(if length ?t \<le> 6 then ?t else toUpperCase example_engine (take 3 ?t))
            = lit ''M'' @ [200] @ lit ''T''" by code_simp
  show ?thesis
    using creation_rule[OF h1 h2 h3 h4 h5, of example_gen] unfolding e1 e2
    by (auto simp: js_or_def)
qed

section \<open>Document Renderer\<close>

text \<open>
  C1, as stated, fails for the PDF generator: for an item whose \<open>unit_id\<close> resolves to
  a unit with abbreviation \<open>m3\<close> and which also carries \<open>unit_name\<close>, the viewer shows
  the abbreviation, while the row built by \<open>downloadBOQPDF\<close> carries the \<open>unit_name\<close>
  as its unit of measure and an empty abbreviation.
\<close>

theorem pdf_precedence_counterexample:
  "viewer_unit [u_cubic] item_cubic = (lit ''m3'')
   \<and> f_unit_of_measure (flat_item_of item_cubic) = (lit ''Cubic metres'')
   \<and> f_unit_abbreviation (flat_item_of item_cubic) = []"
  by code_simp

text \<open>
  C1, amended. The viewer follows the precedence: the abbreviation, else the name, of the
  first unit of the list whose id is the item's (set) \<open>unit_id\<close>; else \<open>unit_name\<close> if
  set; else \<open>unit\<close> if set; else \<open>-\<close>. The PDF generator does not consult the unit
  list: its unit of measure is \<open>unit_name\<close> if set, else \<open>unit\<close> if set, else
  \<open>Item\<close>, and it passes the item's cached \<open>unit_abbreviation\<close> (or the empty string)
  alongside.
\<close>

theorem display_unit_precedence:
  "(\<forall>u. truthy (it_unit_id it) \<and> find (\<lambda>x. Some (u_id x) = it_unit_id it) units = Some u
        \<longrightarrow> viewer_unit units it
              = (if truthy (u_abbreviation u) then str (u_abbreviation u) else u_name u))
   \<and> (\<not> (truthy (it_unit_id it) \<and> (\<exists>u \<in> set units. Some (u_id u) = it_unit_id it))
        \<longrightarrow> viewer_unit units it
              = (if truthy (it_unit_name it) then str (it_unit_name it)
                 else if truthy (it_unit it) then str (it_unit it) else (lit ''-'')))
   \<and> f_unit_of_measure (flat_item_of it)
        = (if truthy (it_unit_name it) then str (it_unit_name it)
           else if truthy (it_unit it) then str (it_unit it) else (lit ''Item''))
   \<and> f_unit_abbreviation (flat_item_of it)
        = (if truthy (it_unit_abbreviation it) then str (it_unit_abbreviation it) else [])"
proof -
  have tr: "\<And>a d. or_else a d = (if truthy a then str a else d)"
    by (auto simp: or_else_def str_def split: option.splits)
  have 1: "viewer_unit units it
              = (if truthy (u_abbreviation u) then str (u_abbreviation u) else u_name u)"
    if "truthy (it_unit_id it)" "find (\<lambda>x. Some (u_id x) = it_unit_id it) units = Some u" for u
    using that by (simp add: viewer_unit_def abbreviation_or_name_def tr)
  have 2: "viewer_unit units it
              = (if truthy (it_unit_name it) then str (it_unit_name it)
                 else if truthy (it_unit it) then str (it_unit it) else (lit ''-''))"
    if "\<not> (truthy (it_unit_id it) \<and> (\<exists>u \<in> set units. Some (u_id u) = it_unit_id it))"
  proof -
    have "(if truthy (it_unit_id it)
            then find (\<lambda>x. Some (u_id x) = it_unit_id it) units else None) = None"
      using that by (auto simp: find_None_iff)
    then show ?thesis by (simp add: viewer_unit_def)
  qed
  have 3: "f_unit_of_measure (flat_item_of it)
        = (if truthy (it_unit_name it) then str (it_unit_name it)
           else if truthy (it_unit it) then str (it_unit it) else (lit ''Item''))"
    by (simp add: flat_item_of_def Let_def tr js_or_def)
  have 4: "f_unit_abbreviation (flat_item_of it)
        = (if truthy (it_unit_abbreviation it) then str (it_unit_abbreviation it) else [])"
    by (simp add: flat_item_of_def Let_def tr)
  from 1 2 3 4 show ?thesis by blast
qed

theorem display_unit_precedence_witness:
  "viewer_unit [u_cubic] item_cubic = (lit ''m3'')
   \<and> viewer_unit [] item_cubic = (lit ''Cubic metres'')
   \<and> f_unit_of_measure (flat_item_of item_cubic) = (lit ''Cubic metres'')"
proof -
  have a: "truthy (it_unit_id item_cubic)
           \<and> find (\<lambda>x. Some (u_id x) = it_unit_id item_cubic) [u_cubic] = Some u_cubic"
    by code_simp
  have c: "truthy (u_abbreviation u_cubic)" "str (u_abbreviation u_cubic) = (lit ''m3'')"
    "truthy (it_unit_name item_cubic)" "str (it_unit_name item_cubic) = (lit ''Cubic metres'')"
    by code_simp+
  have "truthy (it_unit_id item_cubic)
          \<and> find (\<lambda>x. Some (u_id x) = it_unit_id item_cubic) [u_cubic] = Some u_cubic
        \<longrightarrow> viewer_unit [u_cubic] item_cubic
            = (if truthy (u_abbreviation u_cubic) then str (u_abbreviation u_cubic)
               else u_name u_cubic)"
    using display_unit_precedence[of item_cubic "[u_cubic]", THEN conjunct1] by blast
  with a c have 1: "viewer_unit [u_cubic] item_cubic = (lit ''m3'')" by simp
  have "\<not> (truthy (it_unit_id item_cubic)
            \<and> (\<exists>u \<in> set ([] :: company_unit list). Some (u_id u) = it_unit_id item_cubic))
        \<longrightarrow> viewer_unit [] item_cubic
            = (if truthy (it_unit_name item_cubic) then str (it_unit_name item_cubic)
               else if truthy (it_unit item_cubic) then str (it_unit item_cubic) else (lit ''-''))"
    by (rule display_unit_precedence[of item_cubic "[]", THEN conjunct2, THEN conjunct1])
  with c have 2: "viewer_unit [] item_cubic = (lit ''Cubic metres'')" by simp
  have "f_unit_of_measure (flat_item_of item_cubic)
        = (if truthy (it_unit_name item_cubic) then str (it_unit_name item_cubic)
           else if truthy (it_unit item_cubic) then str (it_unit item_cubic) else (lit ''Item''))"
    by (rule display_unit_precedence[of item_cubic "[]", THEN conjunct2, THEN conjunct2,
          THEN conjunct1])
  with c have 3: "f_unit_of_measure (flat_item_of item_cubic) = (lit ''Cubic metres'')" by simp
  from 1 2 3 show ?thesis by blast
qed

section \<open>End-to-end scenario\<close>

text \<open>
  C5, as stated, fails in its last step: Cleanup deletes \<open>unit_name\<close> together with
  \<open>unit\<close>. Here is the scenario's item after the three jobs.
\<close>

theorem end_to_end_counterexample:
  "fst (cleanup_boq_legacy_units (fst (units_normalize_runner example_engine
        (fst (migrate_units_names_to_ids example_engine example_gen store_excavation)))))
   = \<lparr>db_companies = [lit ''c1''],
      db_units = [\<lparr>ur_id = lit ''unit-0'', ur_company_id = Some (lit ''c1''), ur_name = lit ''m3'',
                   ur_abbreviation = Some (lit ''m3'')\<rparr>],
      db_boqs = [boq_of_items (lit ''b1'') (lit ''c1'')
         [Some \<lparr>it_description = Some (lit ''Excavation''), it_quantity = Some 10,
                 it_rate = Some 1500, it_line_total = None, it_amount = None, it_unit = None,
                 it_unit_name = None, it_unit_id = Some (lit ''unit-0''),
                 it_unit_abbreviation = Some (lit ''m3'')\<rparr>]],
      db_next_id = 1\<rparr>"
  by code_simp

text \<open>
  C5, amended. From the item \<open>{description: "Excavation", quantity: 10, rate: 1500, unit: "m3"}\<close>
  in a company without units, the Migration Pipeline creates the unit \<open>m3\<close> with
  abbreviation \<open>m3\<close> and gives the item that unit's id, \<open>unit_name\<close> \<open>m3\<close> and
  \<open>unit_abbreviation\<close> \<open>m3\<close>; the Normalization Runner then changes nothing; Cleanup
  then removes both \<open>unit\<close> and \<open>unit_name\<close> and leaves \<open>unit_id\<close> and
  \<open>unit_abbreviation\<close>. Each job ends with exit code 0.
\<close>

theorem end_to_end_scenario:
  assumes "gen 0 \<noteq> []"
  shows "migrate_units_names_to_ids js gen store_excavation = (store_migrated (gen 0), 0)
       \<and> units_normalize_runner js (store_migrated (gen 0)) = (store_migrated (gen 0), 0)
       \<and> cleanup_boq_legacy_units (store_migrated (gen 0)) = (store_cleaned (gen 0), 0)"
proof -
  have "migrate_units_names_to_ids js gen store_excavation = (store_migrated (gen 0), 0)"
    using assms
    by (simp add: migrate_units_names_to_ids_def store_excavation_def migrate_company_def
      select_units_def select_boqs_def boq_of_items_def migrate_boq_def for_data_def
      migrate_item_def item_excavation_def no_item_def js_or_def str_def resolve_def
      insert_unit_def Let_def abbrev_of_def row_unit_def update_boq_def store_migrated_def
      item_migrated_def)
  moreover have "units_normalize_runner js (store_migrated (gen 0)) = (store_migrated (gen 0), 0)"
    using assms
    by (simp add: units_normalize_runner_def normalize_company_def
      select_units_def select_boqs_def boq_of_items_def normalize_boq_def for_data_def
      normalize_item_def item_excavation_def no_item_def store_migrated_def
      item_migrated_def)
  moreover have "cleanup_boq_legacy_units (store_migrated (gen 0)) = (store_cleaned (gen 0), 0)"
    using assms
    by (simp add: cleanup_boq_legacy_units_def
      boq_of_items_def cleanup_boq_def for_data_def update_boq_def
      cleanup_item_def item_excavation_def no_item_def store_migrated_def store_cleaned_def
      item_migrated_def)
  ultimately show ?thesis by blast
qed

theorem end_to_end_scenario_witness:
  "example_gen 0 \<noteq> []
   \<and> migrate_units_names_to_ids example_engine example_gen store_excavation = (store_migrated (lit ''unit-0''), 0)
   \<and> units_normalize_runner example_engine (store_migrated (lit ''unit-0'')) = (store_migrated (lit ''unit-0''), 0)
   \<and> cleanup_boq_legacy_units (store_migrated (lit ''unit-0'')) = (store_cleaned (lit ''unit-0''), 0)"
proof -
  have g: "example_gen 0 = (lit ''unit-0'')" by code_simp
  then have "example_gen 0 \<noteq> []" by simp
  from end_to_end_scenario[of example_gen example_engine, OF this] show ?thesis unfolding g by simp
qed

section \<open>The loop nest\<close>

lemma step_okD:
  assumes "step_ok I ext Q step" "I s" "step s e = Inr (it', c, s')"
  shows "I s'" "ext s s'" "\<exists>it. e = Some it \<and> Q s' it it' \<and> (\<not> c \<longrightarrow> it' = it \<and> s' = s)"
  using assms unfolding step_ok_def by blast+

lemma step_ok_refl: "step_ok I ext Q step \<Longrightarrow> ext s s"
  unfolding step_ok_def by blast

lemma step_ok_trans: "step_ok I ext Q step \<Longrightarrow> ext a b \<Longrightarrow> ext b c \<Longrightarrow> ext a c"
  unfolding step_ok_def by blast

lemma step_ok_mono: "step_ok I ext Q step \<Longrightarrow> Q a it it' \<Longrightarrow> ext a b \<Longrightarrow> Q b it it'"
  unfolding step_ok_def by blast

lemma items_rel_mono:
  "items_rel Q es es' \<Longrightarrow> (\<And>it it'. Q it it' \<Longrightarrow> Q' it it') \<Longrightarrow> items_rel Q' es es'"
  unfolding items_rel_def
  by (erule list_all2_mono) (auto elim: option.rel_mono_strong)

lemma for_items_rel:
  assumes ok: "step_ok I ext Q step"
  shows "for_items step s es = Inr (es', c, s') \<Longrightarrow> I s \<Longrightarrow>
         I s' \<and> ext s s' \<and> items_rel (Q s') es es' \<and> (\<not> c \<longrightarrow> es' = es \<and> s' = s)"
proof (induction es arbitrary: s es' c s')
  case Nil
  then show ?case by (simp add: items_rel_def step_ok_refl[OF ok])
next
  case (Cons e es)
  from Cons.prems(1) obtain it1 c1 s1 es1 c2 where
    st: "step s e = Inr (it1, c1, s1)" and
    rest: "for_items step s1 es = Inr (es1, c2, s')" and
    res: "es' = Some it1 # es1" "c = (c1 \<or> c2)"
    by (auto split: sum.splits prod.splits)
  from step_okD[OF ok Cons.prems(2) st] obtain it where
    s1: "I s1" "ext s s1" and e: "e = Some it" "Q s1 it it1" "\<not> c1 \<longrightarrow> it1 = it \<and> s1 = s"
    by blast
  from Cons.IH[OF rest s1(1)] have
    ih: "I s'" "ext s1 s'" "items_rel (Q s') es es1" "\<not> c2 \<longrightarrow> es1 = es \<and> s' = s1"
    by blast+
  have "Q s' it it1" using step_ok_mono[OF ok e(2) ih(2)] .
  then have "items_rel (Q s') (e # es) es'"
    using ih(3) e(1) res(1) by (simp add: items_rel_def)
  moreover have "ext s s'" using step_ok_trans[OF ok s1(2) ih(2)] .
  ultimately show ?case using ih(1,4) e(1,3) res by auto
qed

lemma sections_rel_mono:
  "sections_rel Q ss ss' \<Longrightarrow> (\<And>it it'. Q it it' \<Longrightarrow> Q' it it') \<Longrightarrow> sections_rel Q' ss ss'"
  unfolding sections_rel_def section_rel_def
  apply (erule list_all2_mono)
  apply (erule option.rel_mono_strong)
  apply clarsimp
  apply (erule option.rel_mono_strong)
  apply (erule items_rel_mono)
  apply blast
  done

lemma for_sections_rel:
  assumes ok: "step_ok I ext Q step"
  shows "for_sections step s secs = Inr (secs', c, s') \<Longrightarrow> I s \<Longrightarrow>
         I s' \<and> ext s s' \<and> sections_rel (Q s') secs secs' \<and> (\<not> c \<longrightarrow> secs' = secs \<and> s' = s)"
proof (induction secs arbitrary: s secs' c s')
  case Nil
  then show ?case by (simp add: sections_rel_def step_ok_refl[OF ok])
next
  case (Cons x secs)
  from Cons.prems(1) obtain sec where x: "x = Some sec" by (cases x) auto
  show ?case
  proof (cases "s_items sec")
    case None
    from Cons.prems(1) x None obtain secs1 where
      rest: "for_sections step s secs = Inr (secs1, c, s')" and res: "secs' = Some sec # secs1"
      by (auto split: sum.splits prod.splits)
    from Cons.IH[OF rest Cons.prems(2)] have
      ih: "I s'" "ext s s'" "sections_rel (Q s') secs secs1" "\<not> c \<longrightarrow> secs1 = secs \<and> s' = s"
      by blast+
    have "section_rel (Q s') sec sec" using None by (simp add: section_rel_def)
    then show ?thesis using ih x res by (simp add: sections_rel_def)
  next
    case (Some items)
    from Cons.prems(1) x Some obtain items1 c1 s1 secs1 c2 where
      its: "for_items step s items = Inr (items1, c1, s1)" and
      rest: "for_sections step s1 secs = Inr (secs1, c2, s')" and
      res: "secs' = Some (sec\<lparr>s_items := Some items1\<rparr>) # secs1" "c = (c1 \<or> c2)"
      by (auto split: sum.splits prod.splits)
    from for_items_rel[OF ok its Cons.prems(2)] have
      a: "I s1" "ext s s1" "items_rel (Q s1) items items1" "\<not> c1 \<longrightarrow> items1 = items \<and> s1 = s"
      by blast+
    from Cons.IH[OF rest a(1)] have
      ih: "I s'" "ext s1 s'" "sections_rel (Q s') secs secs1" "\<not> c2 \<longrightarrow> secs1 = secs \<and> s' = s1"
      by blast+
    have "items_rel (Q s') items items1"
      using items_rel_mono[OF a(3)] step_ok_mono[OF ok _ ih(2)] by blast
    then have "section_rel (Q s') sec (sec\<lparr>s_items := Some items1\<rparr>)"
      using Some by (simp add: section_rel_def)
    then have "sections_rel (Q s') (x # secs) secs'"
      using ih(3) x res(1) by (simp add: sections_rel_def)
    moreover have "ext s s'" using step_ok_trans[OF ok a(2) ih(2)] .
    moreover have "\<not> c \<longrightarrow> secs' = x # secs \<and> s' = s"
      using a(4) ih(4) res x Some by auto
    ultimately show ?thesis using ih(1) by blast
  qed
qed

text \<open>The document a BOQ holds after the script has dealt with it.\<close>

lemma for_data_rel:
  assumes ok: "step_ok I ext Q step"
    and run: "for_data step s dd = Inr (w, s')" and I: "I s"
  shows "I s' \<and> ext s s'
       \<and> rel_option (data_rel (Q s')) dd (case w of None \<Rightarrow> dd | Some d' \<Rightarrow> Some d')
       \<and> (w = None \<longrightarrow> s' = s) \<and> (w \<noteq> None \<longrightarrow> dd \<noteq> None)"
proof (cases dd)
  case None
  with run show ?thesis using I step_ok_refl[OF ok] by (simp add: for_data_def)
next
  case (Some d)
  show ?thesis
  proof (cases "d_sections d")
    case None
    with run Some show ?thesis using I step_ok_refl[OF ok]
      by (simp add: for_data_def data_rel_def)
  next
    case (Some secs)
    from run \<open>dd = Some d\<close> Some obtain secs1 c where
      fs: "for_sections step s secs = Inr (secs1, c, s')" and
      w: "w = (if c then Some (d\<lparr>d_sections := Some secs1\<rparr>) else None)"
      by (auto simp: for_data_def split: sum.splits prod.splits)
    from for_sections_rel[OF ok fs I] have
      a: "I s'" "ext s s'" "sections_rel (Q s') secs secs1" "\<not> c \<longrightarrow> secs1 = secs \<and> s' = s"
      by blast+
    show ?thesis
    proof (cases c)
      case True
      then show ?thesis using a w Some \<open>dd = Some d\<close> by (simp add: data_rel_def)
    next
      case False
      then show ?thesis using a w Some \<open>dd = Some d\<close> by (simp add: data_rel_def)
    qed
  qed
qed

lemma boq_rel_mono:
  assumes "boq_rel Q b b'" "\<And>it it'. Q it it' \<Longrightarrow> Q' it it'"
  shows "boq_rel Q' b b'"
proof -
  have sm: "sections_rel Q' ss ss'" if "sections_rel Q ss ss'" for ss ss'
    using sections_rel_mono[OF that] assms(2) by blast
  have "rel_option (data_rel Q') (b_data b) (b_data b')"
    using assms(1) unfolding boq_rel_def
    by (auto elim!: option.rel_mono_strong simp: data_rel_def intro: sm)
  then show ?thesis using assms(1) by (simp add: boq_rel_def)
qed

section \<open>Rows of the \<open>boqs\<close> table across a run\<close>

lemma distinct_ids_eq:
  "distinct (map b_id xs) \<Longrightarrow> x \<in> set xs \<Longrightarrow> y \<in> set xs \<Longrightarrow> b_id x = b_id y \<Longrightarrow> x = y"
  by (meson distinct_map inj_on_eq_iff)

lemma rows_rel_refl: "rows_rel (\<lambda>x. False) R xs xs"
  by (simp add: rows_rel_def list_all2_same)

lemma rows_rel_cong:
  "(\<And>x. x \<in> set xs \<Longrightarrow> P x = P' x) \<Longrightarrow> rows_rel P R xs ys \<Longrightarrow> rows_rel P' R xs ys"
  unfolding rows_rel_def list_all2_conv_all_nth by auto

lemma rows_rel_ids:
  assumes "rows_rel P R xs ys" and "\<And>x y. R x y \<Longrightarrow> b_id y = b_id x"
  shows "map b_id ys = map b_id xs"
proof -
  have "list_all2 (\<lambda>x y. b_id y = b_id x) xs ys"
    using assms(1) unfolding rows_rel_def
    by (rule list_all2_mono) (auto split: if_splits dest: assms(2))
  then show ?thesis
    by (induction rule: list_all2_induct) auto
qed

lemma rows_rel_keep:
  assumes "rows_rel P R xs ys" "x \<in> set xs" "\<not> P x"
  shows "x \<in> set ys"
proof -
  from assms(2) obtain i where i: "i < length xs" "xs ! i = x"
    by (auto simp: in_set_conv_nth)
  with assms(1,3) have "ys ! i = x" "i < length ys"
    unfolding rows_rel_def list_all2_conv_all_nth by auto
  then show ?thesis by (metis nth_mem)
qed

lemma rows_rel_compose:
  assumes 12: "rows_rel P1 R1 xs ys" and 23: "rows_rel P2 R2 ys zs"
    and a: "\<And>x y. P1 x \<Longrightarrow> R1 x y \<Longrightarrow> \<not> P2 y \<and> R3 x y"
    and b: "\<And>x z. \<not> P1 x \<Longrightarrow> P2 x \<Longrightarrow> R2 x z \<Longrightarrow> R3 x z"
    and c: "\<And>x. P3 x \<longleftrightarrow> P1 x \<or> P2 x"
  shows "rows_rel P3 R3 xs zs"
  unfolding rows_rel_def
proof (rule list_all2_trans[OF _ 12[unfolded rows_rel_def] 23[unfolded rows_rel_def]])
  fix x y z
  assume xy: "if P1 x then R1 x y else y = x" and yz: "if P2 y then R2 y z else z = y"
  show "if P3 x then R3 x z else z = x"
  proof (cases "P1 x")
    case True
    with xy a have "\<not> P2 y \<and> R3 x y" by simp
    then have "\<not> P2 y" "R3 x y" by simp_all
    with yz True c show ?thesis by simp
  next
    case False
    with xy have "y = x" by simp
    with yz False b c show ?thesis by (cases "P2 x") auto
  qed
qed

lemma update_boq_rows:
  assumes "distinct (map b_id (db_boqs d))" "b \<in> set (db_boqs d)"
  shows "rows_rel (\<lambda>x. b_id x = b_id b) (\<lambda>x y. x = b \<and> y = b\<lparr>b_data := Some data\<rparr>)
           (db_boqs d) (db_boqs (update_boq (b_id b) data d))"
  unfolding rows_rel_def update_boq_def
  using distinct_ids_eq[OF assms(1) _ assms(2)]
  by (auto simp: list_all2_map2 list_all2_same)

text \<open>
  The loop over the BOQs a script has loaded. \<open>proc\<close> deals with one BOQ: it leaves the
  table alone or issues the \<open>UPDATE\<close> for that BOQ's id.
\<close>

lemma loop_rows_rel:
  fixes loop :: "'st \<Rightarrow> boq list \<Rightarrow> error + 'st" and dbof :: "'st \<Rightarrow> db"
  assumes nil: "\<And>s. loop s [] = Inr s"
    and cons: "\<And>s b bs. loop s (b # bs) =
                 (case proc s b of Inl e \<Rightarrow> Inl e | Inr s' \<Rightarrow> loop s' bs)"
    and proc: "\<And>s b s'. I s \<Longrightarrow> proc s b = Inr s' \<Longrightarrow>
                 I s' \<and> ext s s'
                 \<and> ((db_boqs (dbof s') = db_boqs (dbof s) \<and> R s' b b)
                    \<or> (\<exists>data. db_boqs (dbof s') = db_boqs (update_boq (b_id b) data (dbof s))
                         \<and> R s' b (b\<lparr>b_data := Some data\<rparr>)))"
    and refl: "\<And>s. ext s s"
    and trans: "\<And>a b c. ext a b \<Longrightarrow> ext b c \<Longrightarrow> ext a c"
    and mono: "\<And>a c x y. R a x y \<Longrightarrow> ext a c \<Longrightarrow> R c x y"
    and ids: "\<And>a x y. R a x y \<Longrightarrow> b_id y = b_id x"
  shows "loop s bs = Inr s' \<Longrightarrow> I s \<Longrightarrow> distinct (map b_id (db_boqs (dbof s))) \<Longrightarrow>
         set bs \<subseteq> set (db_boqs (dbof s)) \<Longrightarrow> distinct (map b_id bs) \<Longrightarrow>
         I s' \<and> ext s s'
         \<and> rows_rel (\<lambda>x. b_id x \<in> b_id ` set bs) (R s') (db_boqs (dbof s)) (db_boqs (dbof s'))"
proof (induction bs arbitrary: s)
  case Nil
  then show ?case using nil refl rows_rel_refl by simp
next
  case (Cons b bs)
  from Cons.prems(1) obtain s1 where p: "proc s b = Inr s1" and l: "loop s1 bs = Inr s'"
    by (auto simp: cons split: sum.splits)
  from proc[OF Cons.prems(2) p] have s1: "I s1" "ext s s1" and
    alt: "(db_boqs (dbof s1) = db_boqs (dbof s) \<and> R s1 b b)
          \<or> (\<exists>data. db_boqs (dbof s1) = db_boqs (update_boq (b_id b) data (dbof s))
                \<and> R s1 b (b\<lparr>b_data := Some data\<rparr>))"
    by blast+
  have bin: "b \<in> set (db_boqs (dbof s))" using Cons.prems(4) by simp
  have one: "rows_rel (\<lambda>x. b_id x = b_id b) (R s1) (db_boqs (dbof s)) (db_boqs (dbof s1))"
  proof -
    from alt consider
      (same) "db_boqs (dbof s1) = db_boqs (dbof s)" "R s1 b b"
      | (upd) data where "db_boqs (dbof s1) = db_boqs (update_boq (b_id b) data (dbof s))"
          "R s1 b (b\<lparr>b_data := Some data\<rparr>)"
      by blast
    then show ?thesis
    proof cases
      case same
      then show ?thesis
        unfolding rows_rel_def
        using distinct_ids_eq[OF Cons.prems(3) _ bin] by (auto simp: list_all2_same)
    next
      case upd
      have "rows_rel (\<lambda>x. b_id x = b_id b) (\<lambda>x y. x = b \<and> y = b\<lparr>b_data := Some data\<rparr>)
           (db_boqs (dbof s)) (db_boqs (update_boq (b_id b) data (dbof s)))"
        by (rule update_boq_rows[OF Cons.prems(3) bin])
      then show ?thesis
        unfolding rows_rel_def upd(1)
        by (rule list_all2_mono) (auto split: if_splits simp: upd(2))
    qed
  qed
  have ids1: "map b_id (db_boqs (dbof s1)) = map b_id (db_boqs (dbof s))"
    by (rule rows_rel_ids[OF one]) (rule ids)
  have d1: "distinct (map b_id (db_boqs (dbof s1)))" using ids1 Cons.prems(3) by simp
  have nb: "b_id b \<notin> b_id ` set bs" using Cons.prems(5) by simp
  have sub1: "set bs \<subseteq> set (db_boqs (dbof s1))"
  proof
    fix x assume x: "x \<in> set bs"
    then have "x \<in> set (db_boqs (dbof s))" using Cons.prems(4) by auto
    moreover have "b_id x \<noteq> b_id b" using x nb by (metis imageI)
    ultimately show "x \<in> set (db_boqs (dbof s1))"
      using rows_rel_keep[OF one] by blast
  qed
  have d2: "distinct (map b_id bs)" using Cons.prems(5) by simp
  from Cons.IH[OF l s1(1) d1 sub1 d2] have
    ih: "I s'" "ext s1 s'"
        "rows_rel (\<lambda>x. b_id x \<in> b_id ` set bs) (R s') (db_boqs (dbof s1)) (db_boqs (dbof s'))"
    by blast+
  have "rows_rel (\<lambda>x. b_id x \<in> b_id ` set (b # bs)) (R s')
          (db_boqs (dbof s)) (db_boqs (dbof s'))"
  proof (rule rows_rel_compose[OF one ih(3)])
    fix x y assume "b_id x = b_id b" "R s1 x y"
    then show "b_id y \<notin> b_id ` set bs \<and> R s' x y"
      using nb ids[of s1 x y] mono[OF _ ih(2)] by auto
  qed auto
  then show ?case using ih(1) trans[OF s1(2) ih(2)] by blast
qed

lemma rows_rel_all:
  "rows_rel P R xs ys \<Longrightarrow> (\<And>x. x \<in> set xs \<Longrightarrow> P x) \<Longrightarrow> list_all2 R xs ys"
  unfolding rows_rel_def list_all2_conv_all_nth by auto

lemma for_data_boq_rel:
  assumes ok: "step_ok I ext Q step"
    and run: "for_data step s (b_data b) = Inr (w, s')" and I: "I s"
  shows "I s' \<and> ext s s'
       \<and> boq_rel (Q s') b (case w of None \<Rightarrow> b | Some data \<Rightarrow> b\<lparr>b_data := Some data\<rparr>)
       \<and> (w = None \<longrightarrow> s' = s)"
  using for_data_rel[OF ok run I]
  by (cases w) (auto simp: boq_rel_def)

lemma boq_rel_id: "boq_rel Q x y \<Longrightarrow> b_id y = b_id x"
  by (simp add: boq_rel_def)

lemma boq_rel_company: "boq_rel Q x y \<Longrightarrow> b_company_id y = b_company_id x"
  by (simp add: boq_rel_def)

section \<open>Legacy Field Cleanup\<close>

lemma cleanup_step_ok: "step_ok (\<lambda>_. True) (\<lambda>_ _. True) (\<lambda>_. cleanup_post) cleanup_item"
  unfolding step_ok_def cleanup_item_def cleanup_post_def
  by (auto split: option.splits if_splits)

lemma cleanup_boq_cases:
  assumes "cleanup_boq d b = Inr d'"
  shows "same_units d d'
       \<and> ((db_boqs d' = db_boqs d \<and> boq_rel cleanup_post b b)
          \<or> (\<exists>data. db_boqs d' = db_boqs (update_boq (b_id b) data d)
                \<and> boq_rel cleanup_post b (b\<lparr>b_data := Some data\<rparr>)))"
proof -
  from assms obtain w s where run: "for_data cleanup_item () (b_data b) = Inr (w, s)"
    and d': "d' = (case w of None \<Rightarrow> d | Some data \<Rightarrow> update_boq (b_id b) data d)"
    by (auto simp: cleanup_boq_def split: sum.splits prod.splits option.splits)
  from for_data_boq_rel[OF cleanup_step_ok run]
  have "boq_rel cleanup_post b (case w of None \<Rightarrow> b | Some data \<Rightarrow> b\<lparr>b_data := Some data\<rparr>)"
    by simp
  then show ?thesis using d'
    by (cases w) (auto simp: same_units_def update_boq_def)
qed

lemma same_units_trans: "same_units a b \<Longrightarrow> same_units b c \<Longrightarrow> same_units a c"
  by (simp add: same_units_def)

lemma cleanup_boqs_rows:
  assumes "cleanup_boqs d bs = Inr d'" "distinct (map b_id (db_boqs d))"
    "set bs \<subseteq> set (db_boqs d)" "distinct (map b_id bs)"
  shows "same_units d d'
       \<and> rows_rel (\<lambda>x. b_id x \<in> b_id ` set bs) (boq_rel cleanup_post) (db_boqs d) (db_boqs d')"
proof -
  have "True \<and> same_units d d'
       \<and> rows_rel (\<lambda>x. b_id x \<in> b_id ` set bs) (boq_rel cleanup_post)
           (db_boqs (id d)) (db_boqs (id d'))"
  proof (rule loop_rows_rel[where loop = cleanup_boqs and proc = cleanup_boq and dbof = id
          and I = "\<lambda>_. True" and ext = same_units and R = "\<lambda>_. boq_rel cleanup_post"])
    show "cleanup_boqs d bs = Inr d'" by fact
    show "distinct (map b_id (db_boqs (id d)))" using assms(2) by simp
    show "set bs \<subseteq> set (db_boqs (id d))" using assms(3) by simp
    show "distinct (map b_id bs)" by fact
  next
    fix s b s' assume "cleanup_boq s b = Inr s'"
    from cleanup_boq_cases[OF this]
    show "True \<and> same_units s s'
       \<and> ((db_boqs (id s') = db_boqs (id s) \<and> boq_rel cleanup_post b b)
          \<or> (\<exists>data. db_boqs (id s') = db_boqs (update_boq (b_id b) data (id s))
                \<and> boq_rel cleanup_post b (b\<lparr>b_data := Some data\<rparr>)))"
      by simp
  qed (auto simp: same_units_def boq_rel_id)
  then show ?thesis by simp
qed

text \<open>The loop over the companies; \<open>per_company\<close> deals with the BOQs of one company.\<close>

lemma companies_rows_rel:
  fixes loop :: "db \<Rightarrow> jstring list \<Rightarrow> error + db"
  assumes nil: "\<And>d. loop d [] = Inr d"
    and cons: "\<And>d c cs. loop d (c # cs) =
                 (case per_company d c of Inl e \<Rightarrow> Inl e | Inr d' \<Rightarrow> loop d' cs)"
    and per: "\<And>d c d'. I d \<Longrightarrow> distinct (map b_id (db_boqs d)) \<Longrightarrow> per_company d c = Inr d' \<Longrightarrow>
                 I d' \<and> ext d d'
                 \<and> rows_rel (\<lambda>x. b_company_id x = Some c) (R d') (db_boqs d) (db_boqs d')"
    and refl: "\<And>d. ext d d"
    and trans: "\<And>a b c. ext a b \<Longrightarrow> ext b c \<Longrightarrow> ext a c"
    and mono: "\<And>a c x y. R a x y \<Longrightarrow> ext a c \<Longrightarrow> R c x y"
    and ids: "\<And>a x y. R a x y \<Longrightarrow> b_id y = b_id x \<and> b_company_id y = b_company_id x"
  shows "loop d cs = Inr d' \<Longrightarrow> I d \<Longrightarrow> distinct (map b_id (db_boqs d)) \<Longrightarrow> distinct cs \<Longrightarrow>
         I d' \<and> ext d d'
         \<and> rows_rel (\<lambda>x. b_company_id x \<in> Some ` set cs) (R d') (db_boqs d) (db_boqs d')"
proof (induction cs arbitrary: d)
  case Nil
  then show ?case using nil refl rows_rel_refl by simp
next
  case (Cons c cs)
  from Cons.prems(1) obtain d1 where p: "per_company d c = Inr d1" and l: "loop d1 cs = Inr d'"
    by (auto simp: cons split: sum.splits)
  from per[OF Cons.prems(2,3) p] have d1: "I d1" "ext d d1" and
    one: "rows_rel (\<lambda>x. b_company_id x = Some c) (R d1) (db_boqs d) (db_boqs d1)"
    by blast+
  have "map b_id (db_boqs d1) = map b_id (db_boqs d)"
    by (rule rows_rel_ids[OF one]) (simp add: ids)
  then have dist1: "distinct (map b_id (db_boqs d1))" using Cons.prems(3) by simp
  from Cons.IH[OF l d1(1) dist1] Cons.prems(4) have
    ih: "I d'" "ext d1 d'"
        "rows_rel (\<lambda>x. b_company_id x \<in> Some ` set cs) (R d') (db_boqs d1) (db_boqs d')"
    by auto
  have "rows_rel (\<lambda>x. b_company_id x \<in> Some ` set (c # cs)) (R d') (db_boqs d) (db_boqs d')"
  proof (rule rows_rel_compose[OF one ih(3)])
    fix x y assume "b_company_id x = Some c" "R d1 x y"
    then show "b_company_id y \<notin> Some ` set cs \<and> R d' x y"
      using Cons.prems(4) ids[of d1 x y] mono[OF _ ih(2)] by auto
  qed auto
  then show ?case using ih(1) trans[OF d1(2) ih(2)] by blast
qed

lemma select_boqs_ids:
  assumes "distinct (map b_id (db_boqs d))" "x \<in> set (db_boqs d)"
  shows "b_id x \<in> b_id ` set (select_boqs c d) \<longleftrightarrow> b_company_id x = Some c"
proof
  assume "b_id x \<in> b_id ` set (select_boqs c d)"
  then obtain y where y: "y \<in> set (db_boqs d)" "b_company_id y = Some c" "b_id x = b_id y"
    by (auto simp: select_boqs_def)
  with distinct_ids_eq[OF assms(1) assms(2) y(1)] show "b_company_id x = Some c" by simp
next
  assume "b_company_id x = Some c"
  with assms(2) show "b_id x \<in> b_id ` set (select_boqs c d)"
    by (simp add: select_boqs_def)
qed

lemma select_boqs_distinct:
  "distinct (map b_id (db_boqs d)) \<Longrightarrow> distinct (map b_id (select_boqs c d))"
  by (simp add: select_boqs_def distinct_map_filter)

lemma select_boqs_subset: "set (select_boqs c d) \<subseteq> set (db_boqs d)"
  by (auto simp: select_boqs_def)

section \<open>\<open>null\<close> entries\<close>

lemma for_items_no_null:
  assumes "\<And>s. isl (step s None)"
  shows "for_items step s es = Inr r \<Longrightarrow> None \<notin> set es"
proof (induction es arbitrary: s r)
  case Nil
  then show ?case by simp
next
  case (Cons e es)
  from Cons.prems obtain it c s1 r1 where
    st: "step s e = Inr (it, c, s1)" and rest: "for_items step s1 es = Inr r1"
    by (auto split: sum.splits prod.splits)
  from st assms[of s] have "e \<noteq> None" by (cases e) auto
  with Cons.IH[OF rest] show ?case by auto
qed

lemma for_sections_no_null:
  assumes "\<And>s. isl (step s None)"
  shows "for_sections step s secs = Inr r \<Longrightarrow> no_null_sections secs"
proof (induction secs arbitrary: s r)
  case Nil
  then show ?case by (simp add: no_null_sections_def)
next
  case (Cons x secs)
  from Cons.prems obtain sec where x: "x = Some sec" by (cases x) auto
  show ?case
  proof (cases "s_items sec")
    case None
    with Cons.prems x obtain r1 where "for_sections step s secs = Inr r1"
      by (auto split: sum.splits prod.splits)
    from Cons.IH[OF this] x None show ?thesis by (simp add: no_null_sections_def)
  next
    case (Some items)
    with Cons.prems x obtain items1 c1 s1 r1 where
      its: "for_items step s items = Inr (items1, c1, s1)" and
      rest: "for_sections step s1 secs = Inr r1"
      by (auto split: sum.splits prod.splits)
    from for_items_no_null[where step = step, OF assms its] Cons.IH[OF rest] x Some
    show ?thesis by (simp add: no_null_sections_def)
  qed
qed

lemma for_data_no_null:
  assumes "\<And>s. isl (step s None)" and "for_data step s data = Inr r"
  shows "no_nulls data"
proof -
  have "no_null_sections secs" if "for_sections step s secs = Inr r'" for secs r'
    using for_sections_no_null[where step = step, OF assms(1) that] .
  then show ?thesis
    using assms(2)
    by (fastforce simp: for_data_def no_nulls_def split: option.splits sum.splits)
qed

lemma has_null_item_nulls: "has_null_item data \<Longrightarrow> \<not> no_nulls data"
  by (fastforce simp: has_null_item_def no_nulls_def no_null_sections_def split: option.splits)

lemma for_items_total:
  assumes "\<And>s it. \<exists>it' c. step s (Some it) = Inr (it', c, s)"
  shows "None \<notin> set es \<Longrightarrow> \<exists>es' c. for_items step s es = Inr (es', c, s)"
proof (induction es)
  case Nil
  then show ?case by auto
next
  case (Cons e es)
  then obtain it where e: "e = Some it" by (cases e) auto
  from assms[of s it] obtain it' c where st: "step s (Some it) = Inr (it', c, s)" by blast
  from Cons.prems have "None \<notin> set es" by simp
  from Cons.IH[OF this] obtain es' c' where "for_items step s es = Inr (es', c', s)" by blast
  with st e show ?case by simp
qed

lemma for_sections_total:
  assumes "\<And>s it. \<exists>it' c. step s (Some it) = Inr (it', c, s)"
  shows "no_null_sections secs \<Longrightarrow> \<exists>secs' c. for_sections step s secs = Inr (secs', c, s)"
proof (induction secs)
  case Nil
  then show ?case by auto
next
  case (Cons x secs)
  from Cons.prems obtain sec where x: "x = Some sec"
    by (cases x) (auto simp: no_null_sections_def)
  from Cons.prems have "no_null_sections secs" by (simp add: no_null_sections_def)
  from Cons.IH[OF this] obtain secs' c' where rest: "for_sections step s secs = Inr (secs', c', s)"
    by blast
  show ?case
  proof (cases "s_items sec")
    case None
    with rest x show ?thesis by simp
  next
    case (Some items)
    with Cons.prems x have "None \<notin> set items" by (simp add: no_null_sections_def)
    from for_items_total[where step = step, OF assms this] obtain items' c where
      "for_items step s items = Inr (items', c, s)" by blast
    with rest x Some show ?thesis by simp
  qed
qed

lemma for_data_total:
  assumes "\<And>s it. \<exists>it' c. step s (Some it) = Inr (it', c, s)" and "no_nulls data"
  shows "\<exists>w. for_data step s data = Inr (w, s)"
proof (cases data)
  case None
  then show ?thesis by (simp add: for_data_def)
next
  case (Some d)
  show ?thesis
  proof (cases "d_sections d")
    case None
    with Some show ?thesis by (simp add: for_data_def)
  next
    case (Some secs)
    with \<open>data = Some d\<close> assms(2) have "no_null_sections secs" by (simp add: no_nulls_def)
    from for_sections_total[where step = step, OF assms(1) this] obtain secs' c where
      "for_sections step s secs = Inr (secs', c, s)" by blast
    with Some \<open>data = Some d\<close> show ?thesis by (simp add: for_data_def)
  qed
qed

lemma items_rel_no_null: "items_rel Q es es' \<Longrightarrow> None \<notin> set es \<longleftrightarrow> None \<notin> set es'"
  unfolding items_rel_def
  by (induction rule: list_all2_induct) (auto elim: option.rel_cases)

lemma sections_rel_no_null:
  "sections_rel Q secs secs' \<Longrightarrow> no_null_sections secs \<longleftrightarrow> no_null_sections secs'"
  unfolding sections_rel_def
proof (induction rule: list_all2_induct)
  case Nil
  then show ?case by simp
next
  case (Cons x xs y ys)
  from Cons(1) have "(case x of None \<Rightarrow> False
      | Some sec \<Rightarrow> (case s_items sec of None \<Rightarrow> True | Some items \<Rightarrow> None \<notin> set items))
    = (case y of None \<Rightarrow> False
      | Some sec \<Rightarrow> (case s_items sec of None \<Rightarrow> True | Some items \<Rightarrow> None \<notin> set items))"
    by (auto elim!: option.rel_cases simp: section_rel_def dest: items_rel_no_null
        split: option.splits)
  with Cons(3) show ?case by (simp add: no_null_sections_def)
qed

lemma boq_rel_no_nulls: "boq_rel Q b b' \<Longrightarrow> no_nulls (b_data b) \<longleftrightarrow> no_nulls (b_data b')"
  unfolding boq_rel_def no_nulls_def
  by (auto elim!: option.rel_cases simp: data_rel_def dest: sections_rel_no_null
      split: option.splits)

section \<open>Legacy Field Cleanup: the run\<close>

lemma cleanup_boqs_no_nulls:
  "cleanup_boqs d bs = Inr d' \<Longrightarrow> b \<in> set bs \<Longrightarrow> no_nulls (b_data b)"
proof (induction bs arbitrary: d)
  case Nil
  then show ?case by simp
next
  case (Cons a bs)
  from Cons.prems(1) obtain d1 where a: "cleanup_boq d a = Inr d1" and
    rest: "cleanup_boqs d1 bs = Inr d'" by (auto split: sum.splits)
  from a obtain w s where "for_data cleanup_item () (b_data a) = Inr (w, s)"
    by (auto simp: cleanup_boq_def split: sum.splits prod.splits)
  then have "no_nulls (b_data a)"
    by (rule for_data_no_null[rotated]) (simp add: cleanup_item_def)
  with Cons.IH[OF rest] Cons.prems(2) show ?case by auto
qed

lemma cleanup_item_Some: "\<exists>it' c. cleanup_item s (Some it) = Inr (it', c, s)"
  by (auto simp: cleanup_item_def)

lemma cleanup_post_unset:
  assumes "cleanup_post it it'" "truthy (it_unit_id it)"
  shows "\<not> truthy (it_unit it') \<and> \<not> truthy (it_unit_name it')"
proof (cases "truthy (it_unit it) \<or> truthy (it_unit_name it)")
  case True
  with assms have "it' = it\<lparr>it_unit := None, it_unit_name := None\<rparr>"
    by (simp add: cleanup_post_def)
  then show ?thesis by simp
next
  case False
  with assms(1) have "it' = it" by (simp add: cleanup_post_def)
  with False show ?thesis by simp
qed

lemma cleanup_boqs_total:
  "\<forall>b \<in> set bs. no_nulls (b_data b) \<Longrightarrow> \<exists>d'. cleanup_boqs d bs = Inr d'"
proof (induction bs arbitrary: d)
  case Nil
  then show ?case by simp
next
  case (Cons a bs)
  then have "no_nulls (b_data a)" by simp
  from for_data_total[where step = cleanup_item, OF cleanup_item_Some this, of "()"]
  obtain w where "for_data cleanup_item () (b_data a) = Inr (w, ())" by blast
  then obtain d1 where "cleanup_boq d a = Inr d1"
    by (cases w) (auto simp: cleanup_boq_def)
  moreover from Cons.IH[of d1] Cons.prems obtain d' where "cleanup_boqs d1 bs = Inr d'" by auto
  ultimately show ?case by auto
qed

text \<open>
  C4, as stated, fails for an item whose \<open>unit_id\<close> is set and whose only legacy field
  is an empty string: the guard \<open>item.unit || item.unit_name\<close> is false for it, so
  Cleanup commits without touching the item, and the item, which had \<open>unit_id\<close> set
  beforehand, still has its \<open>unit\<close> afterwards.
\<close>

theorem cleanup_keeps_empty_unit_counterexample:
  "cleanup_boq_legacy_units store_empty_unit = (store_empty_unit, 0)
   \<and> db_boqs store_empty_unit = [boq_of_items (lit ''b1'') (lit ''c1'') [Some item_empty_unit]]
   \<and> it_unit_id item_empty_unit = Some (lit ''u1'')
   \<and> it_unit item_empty_unit = Some []"
  by code_simp

text \<open>
  C4, amended. A field is set when it holds a non-empty string. Over a \<open>boqs\<close> table
  with distinct ids (its primary key), Cleanup commits, with exit code 0, exactly when no
  document has a \<open>null\<close> entry in \<open>sections\<close> or in an \<open>items\<close> array. When it
  commits, the companies, the units and the id counter are as before, the \<open>boqs\<close> table
  has the same rows with the same documents, and in them every item that had \<open>unit_id\<close>
  set and \<open>unit\<close> or \<open>unit_name\<close> set has lost \<open>unit\<close> and \<open>unit_name\<close> and nothing
  else, while every other item is entirely unchanged: an item without \<open>unit_id\<close>, and
  an item whose \<open>unit\<close> and \<open>unit_name\<close> are both absent, \<open>null\<close> or empty. So
  an item that had \<open>unit_id\<close> set ends with no set \<open>unit\<close> or \<open>unit_name\<close>, an empty
  string staying where it was. When Cleanup does not commit, the exit code is 1 and the
  store is as it was.
\<close>

theorem cleanup_postcondition:
  assumes "distinct (map b_id (db_boqs d))"
  shows "(snd (cleanup_boq_legacy_units d) = 0
            \<longleftrightarrow> (\<forall>b \<in> set (db_boqs d). no_nulls (b_data b)))
       \<and> (snd (cleanup_boq_legacy_units d) = 0 \<longrightarrow>
            same_units d (fst (cleanup_boq_legacy_units d))
            \<and> list_all2 (boq_rel cleanup_post)
                 (db_boqs d) (db_boqs (fst (cleanup_boq_legacy_units d)))
            \<and> list_all2 (boq_rel (\<lambda>it it'. truthy (it_unit_id it)
                                     \<longrightarrow> \<not> truthy (it_unit it') \<and> \<not> truthy (it_unit_name it')))
                 (db_boqs d) (db_boqs (fst (cleanup_boq_legacy_units d))))
       \<and> (snd (cleanup_boq_legacy_units d) \<noteq> 0 \<longrightarrow> cleanup_boq_legacy_units d = (d, 1))"
proof (cases "cleanup_boqs d (db_boqs d)")
  case (Inl e)
  then have run: "cleanup_boq_legacy_units d = (d, 1)"
    by (simp add: cleanup_boq_legacy_units_def)
  have "\<not> (\<forall>b \<in> set (db_boqs d). no_nulls (b_data b))"
    using cleanup_boqs_total[of "db_boqs d" d] Inl by auto
  with run show ?thesis by simp
next
  case (Inr d1)
  then have run: "cleanup_boq_legacy_units d = (d1, 0)"
    by (simp add: cleanup_boq_legacy_units_def)
  have nn: "\<forall>b \<in> set (db_boqs d). no_nulls (b_data b)"
    using cleanup_boqs_no_nulls[OF Inr] by blast
  from cleanup_boqs_rows[OF Inr assms subset_refl assms]
  have su: "same_units d d1" and
    rr: "rows_rel (\<lambda>x. b_id x \<in> b_id ` set (db_boqs d)) (boq_rel cleanup_post) (db_boqs d) (db_boqs d1)"
    by blast+
  have all: "list_all2 (boq_rel cleanup_post) (db_boqs d) (db_boqs d1)"
    using rr by (rule rows_rel_all) simp
  have "list_all2 (boq_rel (\<lambda>it it'. truthy (it_unit_id it)
                                     \<longrightarrow> \<not> truthy (it_unit it') \<and> \<not> truthy (it_unit_name it')))
          (db_boqs d) (db_boqs d1)"
    using all
  proof (rule list_all2_mono)
    fix x y assume "boq_rel cleanup_post x y"
    then show "boq_rel (\<lambda>it it'. truthy (it_unit_id it)
                          \<longrightarrow> \<not> truthy (it_unit it') \<and> \<not> truthy (it_unit_name it')) x y"
      by (rule boq_rel_mono) (simp add: cleanup_post_unset)
  qed
  with run nn su all show ?thesis by simp
qed

theorem cleanup_postcondition_witness:
  "distinct (map b_id (db_boqs (store_migrated (lit ''unit-0''))))
   \<and> cleanup_boq_legacy_units (store_migrated (lit ''unit-0'')) = (store_cleaned (lit ''unit-0''), 0)
   \<and> same_units (store_migrated (lit ''unit-0'')) (store_cleaned (lit ''unit-0''))
   \<and> list_all2 (boq_rel cleanup_post) (db_boqs (store_migrated (lit ''unit-0'')))
        (db_boqs (store_cleaned (lit ''unit-0'')))
   \<and> it_unit (item_migrated (lit ''unit-0'')) = Some (lit ''m3'')"
proof -
  have a: "cleanup_boq_legacy_units (store_migrated (lit ''unit-0'')) = (store_cleaned (lit ''unit-0''), 0)"
    by code_simp
  have b: "distinct (map b_id (db_boqs (store_migrated (lit ''unit-0''))))" by code_simp
  have c: "it_unit (item_migrated (lit ''unit-0'')) = Some (lit ''m3'')" by code_simp
  from cleanup_postcondition[OF b] a b c show ?thesis by simp
qed

section \<open>Normalization Runner\<close>

lemma normalize_item_None: "normalize_item js units s None = Inl TypeError"
  by (simp add: normalize_item_def)

lemma normalize_item_Some:
  "\<exists>it' c. normalize_item js units s (Some it) = Inr (it', c, s) \<and> (\<not> c \<longrightarrow> it' = it)"
  by (auto simp: normalize_item_def split: option.splits)

lemma normalize_step_ok:
  "step_ok (\<lambda>_. True) (\<lambda>_ _. True) (\<lambda>_ it it'. it' = normalized js units it) (normalize_item js units)"
  unfolding step_ok_def
proof (intro conjI allI impI)
  fix s e it' c s'
  assume "True \<and> normalize_item js units s e = Inr (it', c, s')"
  then have run: "normalize_item js units s e = Inr (it', c, s')" by simp
  then obtain it where e: "e = Some it" by (cases e) (auto simp: normalize_item_None)
  from normalize_item_Some[of js units s it] run e
  have "\<not> c \<longrightarrow> it' = it \<and> s' = s" by auto
  moreover have "it' = normalized js units it"
    using run e by (cases s) (simp add: normalized_def)
  ultimately show "\<exists>it. e = Some it \<and> it' = normalized js units it \<and> (\<not> c \<longrightarrow> it' = it \<and> s' = s)"
    using e by blast
qed auto

lemma normalize_boq_cases:
  assumes "normalize_boq js units d b = Inr d'"
  shows "same_units d d' \<and> no_nulls (b_data b)
       \<and> ((db_boqs d' = db_boqs d \<and> boq_rel (\<lambda>it it'. it' = normalized js units it) b b)
          \<or> (\<exists>data. db_boqs d' = db_boqs (update_boq (b_id b) data d)
                \<and> boq_rel (\<lambda>it it'. it' = normalized js units it) b (b\<lparr>b_data := Some data\<rparr>)))"
proof -
  from assms obtain w s where run: "for_data (normalize_item js units) () (b_data b) = Inr (w, s)"
    and d': "d' = (case w of None \<Rightarrow> d | Some data \<Rightarrow> update_boq (b_id b) data d)"
    by (auto simp: normalize_boq_def split: sum.splits prod.splits option.splits)
  have nn: "no_nulls (b_data b)"
    by (rule for_data_no_null[OF _ run]) (simp add: normalize_item_None)
  from for_data_boq_rel[OF normalize_step_ok run]
  have "boq_rel (\<lambda>it it'. it' = normalized js units it) b
          (case w of None \<Rightarrow> b | Some data \<Rightarrow> b\<lparr>b_data := Some data\<rparr>)"
    by simp
  then show ?thesis using d' nn
    by (cases w) (auto simp: same_units_def update_boq_def)
qed


lemma same_units_select: "same_units d d' \<Longrightarrow> select_units c d' = select_units c d"
  by (simp add: same_units_def select_units_def)

lemma normalize_company_rows:
  assumes "normalize_company js d c = Inr d'" "distinct (map b_id (db_boqs d))"
  shows "same_units d d'
       \<and> rows_rel (\<lambda>x. b_company_id x = Some c) (normalized_boq js d') (db_boqs d) (db_boqs d')"
proof -
  let ?us = "select_units c d"
  let ?R = "\<lambda>x y. no_nulls (b_data x) \<and> boq_rel (\<lambda>it it'. it' = normalized js ?us it) x y"
  have "True \<and> same_units d d'
       \<and> rows_rel (\<lambda>x. b_id x \<in> b_id ` set (select_boqs c d)) ?R
           (db_boqs (id d)) (db_boqs (id d'))"
  proof (rule loop_rows_rel[where loop = "normalize_boqs js ?us" and proc = "normalize_boq js ?us"
          and dbof = id and I = "\<lambda>_. True" and ext = same_units and R = "\<lambda>_. ?R"])
    show "normalize_boqs js ?us d (select_boqs c d) = Inr d'"
      using assms(1) by (simp add: normalize_company_def)
    show "distinct (map b_id (db_boqs (id d)))" using assms(2) by simp
    show "set (select_boqs c d) \<subseteq> set (db_boqs (id d))" using select_boqs_subset by simp
    show "distinct (map b_id (select_boqs c d))" by (rule select_boqs_distinct[OF assms(2)])
  next
    fix s b s' assume "normalize_boq js ?us s b = Inr s'"
    from normalize_boq_cases[OF this]
    show "True \<and> same_units s s'
       \<and> ((db_boqs (id s') = db_boqs (id s) \<and> ?R b b)
          \<or> (\<exists>data. db_boqs (id s') = db_boqs (update_boq (b_id b) data (id s))
                \<and> ?R b (b\<lparr>b_data := Some data\<rparr>)))"
      by auto
  qed (auto simp: same_units_def boq_rel_id)
  then have su: "same_units d d'" and
    rr: "rows_rel (\<lambda>x. b_id x \<in> b_id ` set (select_boqs c d)) ?R (db_boqs d) (db_boqs d')"
    by simp_all
  have "rows_rel (\<lambda>x. b_company_id x = Some c) ?R (db_boqs d) (db_boqs d')"
    using rows_rel_cong[OF select_boqs_ids[OF assms(2)] rr] by simp
  then have "rows_rel (\<lambda>x. b_company_id x = Some c) (normalized_boq js d') (db_boqs d) (db_boqs d')"
    unfolding rows_rel_def
    by (rule list_all2_mono)
       (auto simp: normalized_boq_def same_units_select[OF su] split: if_splits)
  with su show ?thesis by simp
qed

lemma normalize_companies_rows:
  assumes "normalize_companies js d cs = Inr d'" "distinct (map b_id (db_boqs d))" "distinct cs"
  shows "same_units d d'
       \<and> rows_rel (\<lambda>x. b_company_id x \<in> Some ` set cs) (normalized_boq js d')
           (db_boqs d) (db_boqs d')"
proof -
  have "True \<and> same_units d d'
       \<and> rows_rel (\<lambda>x. b_company_id x \<in> Some ` set cs) (normalized_boq js d')
           (db_boqs d) (db_boqs d')"
  proof (rule companies_rows_rel[where loop = "normalize_companies js" and per_company = "normalize_company js"
          and I = "\<lambda>_. True" and ext = same_units and R = "normalized_boq js"])
    show "normalize_companies js d cs = Inr d'" by fact
    show "distinct (map b_id (db_boqs d))" by fact
    show "distinct cs" by fact
  next
    fix d c d' assume "distinct (map b_id (db_boqs d))" "normalize_company js d c = Inr d'"
    from normalize_company_rows[OF this(2,1)]
    show "True \<and> same_units d d'
       \<and> rows_rel (\<lambda>x. b_company_id x = Some c) (normalized_boq js d') (db_boqs d) (db_boqs d')"
      by simp
  next
    fix a c x y assume "normalized_boq js a x y" "same_units a c"
    then show "normalized_boq js c x y"
      by (auto simp: normalized_boq_def same_units_select)
  qed (auto simp: same_units_def normalized_boq_def boq_rel_def)
  then show ?thesis by simp
qed

section \<open>A second pass over normalised rows\<close>








section \<open>Normalization Runner: idempotence\<close>

lemma find_SomeD: "find P xs = Some x \<Longrightarrow> x \<in> set xs \<and> P x"
  by (auto simp: find_Some_iff)

text \<open>The four outcomes of the runner's loop body.\<close>

lemma normalized_cases:
  "normalized js units it = it
   \<or> (\<exists>u \<in> set units.
        (normalized js units it = it\<lparr>it_unit_abbreviation := Some (abbreviation_or_name u),
                                 it_unit_name := Some (u_name u)\<rparr>
          \<and> \<not> truthy (it_unit_abbreviation it) \<and> truthy (it_unit_id it)
          \<and> find (\<lambda>u. Some (u_id u) = it_unit_id it) units = Some u)
      \<or> (normalized js units it = it\<lparr>it_unit_id := Some (u_id u),
                                 it_unit_abbreviation := Some (abbreviation_or_name u)\<rparr>
          \<and> \<not> truthy (it_unit_abbreviation it) \<and> \<not> truthy (it_unit_id it)
          \<and> truthy (it_unit_name it) \<and> name_matches js (str (it_unit_name it)) u)
      \<or> (normalized js units it = it\<lparr>it_unit_id := Some (u_id u),
                                 it_unit_abbreviation := Some (abbreviation_or_name u),
                                 it_unit_name := Some (u_name u)\<rparr>
          \<and> \<not> truthy (it_unit_abbreviation it) \<and> \<not> truthy (it_unit_id it)
          \<and> \<not> truthy (it_unit_name it) \<and> truthy (it_unit it)
          \<and> (name_matches js (str (it_unit it)) u \<or> abbreviation_matches js (str (it_unit it)) u)))"
proof (cases "truthy (it_unit_abbreviation it)")
  case True
  then show ?thesis by (simp add: normalized_def normalize_item_def)
next
  case ab: False
  show ?thesis
  proof (cases "truthy (it_unit_id it)")
    case True
    show ?thesis
    proof (cases "find (\<lambda>u. Some (u_id u) = it_unit_id it) units")
      case None
      with ab True show ?thesis by (simp add: normalized_def normalize_item_def)
    next
      case (Some u)
      with ab True have "normalized js units it
          = it\<lparr>it_unit_abbreviation := Some (abbreviation_or_name u), it_unit_name := Some (u_name u)\<rparr>"
        by (simp add: normalized_def normalize_item_def)
      with ab True Some find_SomeD[OF Some] show ?thesis by blast
    qed
  next
    case id: False
    show ?thesis
    proof (cases "truthy (it_unit_name it)")
      case True
      show ?thesis
      proof (cases "find (name_matches js (str (it_unit_name it))) units")
        case None
        with ab id True show ?thesis by (simp add: normalized_def normalize_item_def)
      next
        case (Some u)
        with ab id True have "normalized js units it
            = it\<lparr>it_unit_id := Some (u_id u), it_unit_abbreviation := Some (abbreviation_or_name u)\<rparr>"
          by (simp add: normalized_def normalize_item_def)
        with ab id True find_SomeD[OF Some] show ?thesis by blast
      qed
    next
      case nm: False
      show ?thesis
      proof (cases "truthy (it_unit it)")
        case False
        with ab id nm show ?thesis by (simp add: normalized_def normalize_item_def)
      next
        case True
        show ?thesis
        proof (cases "find (\<lambda>u. name_matches js (str (it_unit it)) u
                              \<or> abbreviation_matches js (str (it_unit it)) u) units")
          case None
          with ab id nm True show ?thesis by (simp add: normalized_def normalize_item_def)
        next
          case (Some u)
          with ab id nm True have "normalized js units it
              = it\<lparr>it_unit_id := Some (u_id u), it_unit_abbreviation := Some (abbreviation_or_name u),
                    it_unit_name := Some (u_name u)\<rparr>"
            by (simp add: normalized_def normalize_item_def)
          with ab id nm True find_SomeD[OF Some] show ?thesis by blast
        qed
      qed
    qed
  qed
qed









lemma rows_rel_image:
  assumes "rows_rel P R xs ys" "y \<in> set ys"
  shows "\<exists>x \<in> set xs. if P x then R x y else y = x"
proof -
  from assms(2) obtain i where "i < length ys" "ys ! i = y" by (auto simp: in_set_conv_nth)
  with assms(1) show ?thesis
    unfolding rows_rel_def list_all2_conv_all_nth by (metis nth_mem)
qed









section \<open>Migration Pipeline\<close>

lemma resolve_SomeD:
  "resolve js units t = Some m \<Longrightarrow> m \<in> set units \<and> (name_matches js t m \<or> abbreviation_matches js t m)"
  by (auto simp: resolve_def split: option.splits dest: find_SomeD)

lemma insert_unit_Inr:
  assumes "insert_unit gen c name ab d = Inr (nu, d')"
  shows "nu = \<lparr>u_id = gen (db_next_id d), u_name = name, u_abbreviation = Some ab\<rparr>
       \<and> d' = d\<lparr>db_units := db_units d @ [\<lparr>ur_id = gen (db_next_id d), ur_company_id = Some c,
                   ur_name = name, ur_abbreviation = Some ab\<rparr>],
                 db_next_id := Suc (db_next_id d)\<rparr>"
  using assms by (auto simp: insert_unit_def Let_def row_unit_def split: if_splits)

text \<open>The outcomes of the pipeline's loop body on an item.\<close>

lemma migrate_item_cases:
  fixes it :: item
  defines "t \<equiv> str (js_or (it_unit_name it) (it_unit it))"
  shows "(skipped it \<and> migrate_item js gen c st (Some it) = Inr (it, False, st))
   \<or> (\<not> skipped it \<and> (\<exists>m. resolve js (fst st) t = Some m
        \<and> migrate_item js gen c st (Some it)
            = Inr (it\<lparr>it_unit_id := Some (u_id m), it_unit_name := Some (u_name m),
                       it_unit_abbreviation := js_or (u_abbreviation m) None\<rparr>, True, st)))
   \<or> (\<not> skipped it \<and> resolve js (fst st) t = None
        \<and> (\<exists>e. migrate_item js gen c st (Some it) = Inl e))
   \<or> (\<not> skipped it \<and> resolve js (fst st) t = None
        \<and> (\<exists>nu d'. insert_unit gen c t (abbrev_of js t) (snd st) = Inr (nu, d')
              \<and> migrate_item js gen c st (Some it)
                  = Inr (it\<lparr>it_unit_id := Some (u_id nu), it_unit_name := Some (u_name nu),
                             it_unit_abbreviation := js_or (u_abbreviation nu) None\<rparr>,
                         True, fst st @ [nu], d')))"
proof (cases "skipped it")
  case True
  then show ?thesis by (auto simp: skipped_def migrate_item_def Let_def)
next
  case False
  then have ns: "\<not> truthy (it_unit_id it)" "truthy (js_or (it_unit_name it) (it_unit it))"
    by (simp_all add: skipped_def)
  show ?thesis
  proof (cases "resolve js (fst st) t")
    case (Some m)
    with ns False show ?thesis by (simp add: migrate_item_def Let_def t_def)
  next
    case None
    show ?thesis
    proof (cases "insert_unit gen c t (abbrev_of js t) (snd st)")
      case (Inl e)
      with ns None False show ?thesis by (simp add: migrate_item_def Let_def t_def)
    next
      case (Inr p)
      then obtain nu d' where "insert_unit gen c t (abbrev_of js t) (snd st) = Inr (nu, d')"
        by (cases p) auto
      with ns None False show ?thesis by (simp add: migrate_item_def Let_def t_def)
    qed
  qed
qed

lemma step_okI:
  assumes "\<And>s e it' c s'. I s \<Longrightarrow> step s e = Inr (it', c, s') \<Longrightarrow>
             I s' \<and> ext s s'
             \<and> (\<exists>it. e = Some it \<and> Q s' it it' \<and> (\<not> c \<longrightarrow> it' = it \<and> s' = s))"
    and "\<And>s. ext s s"
    and "\<And>a b c. ext a b \<Longrightarrow> ext b c \<Longrightarrow> ext a c"
    and "\<And>a b it it'. Q a it it' \<Longrightarrow> ext a b \<Longrightarrow> Q b it it'"
  shows "step_ok I ext Q step"
  unfolding step_ok_def using assms by blast

lemma select_units_mem:
  "m \<in> set (select_units c d) \<Longrightarrow>
     \<exists>r \<in> set (db_units d). ur_company_id r = Some c \<and> m = row_unit r"
  by (auto simp: select_units_def)

lemma migrated_mono: "migrated js c d it it' \<Longrightarrow> set (db_units d) \<subseteq> set (db_units d') \<Longrightarrow> migrated js c d' it it'"
  unfolding migrated_def by blast

lemma migrate_step_ok:
  assumes gen: "\<And>n. Pid (gen n)"
  shows "step_ok (\<lambda>st. fst st = select_units c (snd st) \<and> (\<forall>r \<in> set (db_units (snd st)). Pid (ur_id r)))
           (\<lambda>st st'. db_boqs (snd st') = db_boqs (snd st) \<and> units_grow (snd st) (snd st'))
           (\<lambda>st. migrated js c (snd st)) (migrate_item js gen c)"
proof -
  let ?I = "\<lambda>st. fst st = select_units c (snd st) \<and> (\<forall>r \<in> set (db_units (snd st)). Pid (ur_id r))"
  let ?ext = "\<lambda>st st'. db_boqs (snd st') = db_boqs (snd st) \<and> units_grow (snd st) (snd st')"
  have step: "?I st' \<and> ?ext st st'
      \<and> (\<exists>it. e = Some it \<and> migrated js c (snd st') it it' \<and> (\<not> ch \<longrightarrow> it' = it \<and> st' = st))"
    if a: "?I st \<and> migrate_item js gen c st e = Inr (it', ch, st')" for st e it' ch st'
  proof -
    from a have I: "fst st = select_units c (snd st)" "\<forall>r \<in> set (db_units (snd st)). Pid (ur_id r)"
      and run: "migrate_item js gen c st e = Inr (it', ch, st')" by simp_all
    from run obtain it where e: "e = Some it" by (cases e) (auto simp: migrate_item_def)
    define t where "t = str (js_or (it_unit_name it) (it_unit it))"
    from migrate_item_cases[of it js gen c st] run[unfolded e] consider
      (skip) "skipped it" "it' = it" "ch = False" "st' = st"
      | (match) m where "\<not> skipped it" "resolve js (fst st) t = Some m" "ch = True" "st' = st"
          "it' = it\<lparr>it_unit_id := Some (u_id m), it_unit_name := Some (u_name m),
                     it_unit_abbreviation := js_or (u_abbreviation m) None\<rparr>"
      | (create) nu d' where "\<not> skipped it" "resolve js (fst st) t = None"
          "insert_unit gen c t (abbrev_of js t) (snd st) = Inr (nu, d')" "ch = True"
          "st' = (fst st @ [nu], d')"
          "it' = it\<lparr>it_unit_id := Some (u_id nu), it_unit_name := Some (u_name nu),
                     it_unit_abbreviation := js_or (u_abbreviation nu) None\<rparr>"
      unfolding t_def by auto
    then have "?I st' \<and> ?ext st st'
        \<and> migrated js c (snd st') it it' \<and> (\<not> ch \<longrightarrow> it' = it \<and> st' = st)"
    proof cases
      case skip
      then show ?thesis using I by (simp add: migrated_def units_grow_def)
    next
      case match
      from resolve_SomeD[OF match(2)] I(1) select_units_mem[of m c "snd st"] obtain r where
        r: "r \<in> set (db_units (snd st))" "ur_company_id r = Some c" "m = row_unit r"
          "name_matches js t m \<or> abbreviation_matches js t m" by auto
      have "migrated js c (snd st) it it'"
        unfolding migrated_def using match(1,5) r
        by (auto simp: row_unit_def t_def intro!: bexI[of _ r])
      then show ?thesis using I match(3,4) by (simp add: units_grow_def)
    next
      case create
      let ?row = "\<lparr>ur_id = gen (db_next_id (snd st)), ur_company_id = Some c,
                     ur_name = t, ur_abbreviation = Some (abbrev_of js t)\<rparr>"
      from insert_unit_Inr[OF create(3)] have
        nu: "nu = row_unit ?row" and
        d': "d' = (snd st)\<lparr>db_units := db_units (snd st) @ [?row],
                   db_next_id := Suc (db_next_id (snd st))\<rparr>"
        by (simp_all add: row_unit_def)
      have tne: "t \<noteq> []" using create(1) unfolding skipped_def t_def
        by (cases "js_or (it_unit_name it) (it_unit it)") (auto simp: str_def)
      have "name_matches js t (row_unit ?row)" using tne by (simp add: name_matches_def row_unit_def)
      then have "migrated js c d' it it'"
        unfolding migrated_def using create(1,6) nu d'
        by (auto simp: row_unit_def t_def intro!: bexI[of _ ?row])
      then have f5: "migrated js c (snd st') it it'" using create(5) by simp
      have f1: "fst st' = select_units c (snd st')"
        using select_units_insert[OF create(3)] I(1) create(5) by simp
      have f2: "\<forall>r \<in> set (db_units (snd st')). Pid (ur_id r)"
        using I(2) gen create(5) d' by auto
      have f3: "db_boqs (snd st') = db_boqs (snd st)" using create(5) d' by simp
      have f4: "units_grow (snd st) (snd st')" using create(5) d' by (auto simp: units_grow_def)
      show ?thesis using f1 f2 f3 f4 f5 create(4) by blast
    qed
    then show ?thesis using e by blast
  qed
  show ?thesis
  proof (rule step_okI)
    fix st e it' ch st'
    assume "?I st" "migrate_item js gen c st e = Inr (it', ch, st')"
    then show "?I st' \<and> ?ext st st'
      \<and> (\<exists>it. e = Some it \<and> migrated js c (snd st') it it' \<and> (\<not> ch \<longrightarrow> it' = it \<and> st' = st))"
      using step[of st e it' ch st'] by blast
  next
    fix s :: "company_unit list \<times> db" show "?ext s s" by (simp add: units_grow_def)
  next
    fix a b d :: "company_unit list \<times> db"
    assume "?ext a b" "?ext b d" then show "?ext a d" by (auto simp: units_grow_def)
  next
    fix a b :: "company_unit list \<times> db" and it it'
    assume "migrated js c (snd a) it it'" "?ext a b"
    then show "migrated js c (snd b) it it'" using migrated_mono by (auto simp: units_grow_def)
  qed
qed


lemma units_grow_refl: "units_grow d d"
  by (simp add: units_grow_def)

lemma units_grow_trans: "units_grow a b \<Longrightarrow> units_grow b c \<Longrightarrow> units_grow a c"
  by (auto simp: units_grow_def)

lemma migrated_boq_mono:
  "migrated_boq js a x y \<Longrightarrow> units_grow a b \<Longrightarrow> migrated_boq js b x y"
  unfolding migrated_boq_def
  by (auto simp: units_grow_def elim!: boq_rel_mono intro: migrated_mono)

lemma migrate_boq_cases:
  assumes gen: "\<And>n. Pid (gen n)"
    and run: "migrate_boq js gen c st b = Inr st'"
    and I: "fst st = select_units c (snd st)" "\<forall>r \<in> set (db_units (snd st)). Pid (ur_id r)"
  shows "(fst st' = select_units c (snd st') \<and> (\<forall>r \<in> set (db_units (snd st')). Pid (ur_id r)))
       \<and> units_grow (snd st) (snd st')
       \<and> ((db_boqs (snd st') = db_boqs (snd st)
             \<and> no_nulls (b_data b) \<and> boq_rel (migrated js c (snd st')) b b)
          \<or> (\<exists>data. db_boqs (snd st') = db_boqs (update_boq (b_id b) data (snd st))
                \<and> no_nulls (b_data b)
                \<and> boq_rel (migrated js c (snd st')) b (b\<lparr>b_data := Some data\<rparr>)))"
proof -
  from run obtain w s1 where fd: "for_data (migrate_item js gen c) st (b_data b) = Inr (w, s1)"
    and st': "st' = (case w of None \<Rightarrow> s1 | Some data \<Rightarrow> (fst s1, update_boq (b_id b) data (snd s1)))"
    by (auto simp: migrate_boq_def split: sum.splits prod.splits option.splits)
  have nn: "no_nulls (b_data b)"
    by (rule for_data_no_null[OF _ fd]) (simp add: migrate_item_def)
  from for_data_boq_rel[OF migrate_step_ok[of Pid gen c js, OF gen] fd] I have
    a: "fst s1 = select_units c (snd s1)" "\<forall>r \<in> set (db_units (snd s1)). Pid (ur_id r)"
       "db_boqs (snd s1) = db_boqs (snd st)" "units_grow (snd st) (snd s1)"
       "boq_rel (migrated js c (snd s1)) b (case w of None \<Rightarrow> b | Some data \<Rightarrow> b\<lparr>b_data := Some data\<rparr>)"
    by simp_all
  show ?thesis
  proof (cases w)
    case None
    with st' a nn show ?thesis by simp
  next
    case (Some data)
    with st' have s: "fst st' = fst s1" "snd st' = update_boq (b_id b) data (snd s1)" by simp_all
    have u: "db_units (snd st') = db_units (snd s1)" "db_companies (snd st') = db_companies (snd s1)"
      using s(2) by (simp_all add: update_boq_def)
    have 1: "fst st' = select_units c (snd st')"
      using a(1) s(1) u(1) by (simp add: select_units_def)
    have 2: "\<forall>r \<in> set (db_units (snd st')). Pid (ur_id r)" using a(2) u(1) by simp
    have 3: "units_grow (snd st) (snd st')" using a(4) u by (simp add: units_grow_def)
    have 4: "db_boqs (snd st') = db_boqs (update_boq (b_id b) data (snd st))"
      using s(2) a(3) by (simp add: update_boq_def)
    have "boq_rel (migrated js c (snd s1)) b (b\<lparr>b_data := Some data\<rparr>)" using a(5) Some by simp
    then have 5: "boq_rel (migrated js c (snd st')) b (b\<lparr>b_data := Some data\<rparr>)"
      by (rule boq_rel_mono) (erule migrated_mono, simp add: u(1))
    from 1 2 3 4 5 nn show ?thesis by blast
  qed
qed

lemma migrate_company_rows:
  assumes gen: "\<And>n. Pid (gen n)"
    and run: "migrate_company js gen d c = Inr d'"
    and dist: "distinct (map b_id (db_boqs d))"
    and ids: "\<forall>r \<in> set (db_units d). Pid (ur_id r)"
  shows "(\<forall>r \<in> set (db_units d'). Pid (ur_id r)) \<and> units_grow d d'
       \<and> rows_rel (\<lambda>x. b_company_id x = Some c) (migrated_boq js d') (db_boqs d) (db_boqs d')"
proof -
  let ?I = "\<lambda>st. fst st = select_units c (snd st) \<and> (\<forall>r \<in> set (db_units (snd st)). Pid (ur_id r))"
  let ?ext = "\<lambda>st st'. units_grow (snd st) (snd st')"
  let ?R = "\<lambda>st x y. no_nulls (b_data x) \<and> boq_rel (migrated js c (snd st)) x y"
  from run obtain us' where loop:
    "migrate_boqs js gen c (select_units c d, d) (select_boqs c d) = Inr (us', d')"
    by (auto simp: migrate_company_def split: sum.splits prod.splits)
  have "?I (us', d') \<and> ?ext (select_units c d, d) (us', d')
       \<and> rows_rel (\<lambda>x. b_id x \<in> b_id ` set (select_boqs c d)) (?R (us', d'))
           (db_boqs (snd (select_units c d, d))) (db_boqs (snd (us', d')))"
  proof (rule loop_rows_rel[where loop = "migrate_boqs js gen c" and proc = "migrate_boq js gen c"
          and dbof = snd and I = ?I and ext = ?ext and R = ?R])
    show "migrate_boqs js gen c (select_units c d, d) (select_boqs c d) = Inr (us', d')" by fact
    show "?I (select_units c d, d)" using ids by simp
    show "distinct (map b_id (db_boqs (snd (select_units c d, d))))" using dist by simp
    show "set (select_boqs c d) \<subseteq> set (db_boqs (snd (select_units c d, d)))"
      using select_boqs_subset by simp
    show "distinct (map b_id (select_boqs c d))" by (rule select_boqs_distinct[OF dist])
  next
    fix s b s' assume "?I s" "migrate_boq js gen c s b = Inr s'"
    then show "?I s' \<and> ?ext s s'
       \<and> ((db_boqs (snd s') = db_boqs (snd s) \<and> ?R s' b b)
          \<or> (\<exists>data. db_boqs (snd s') = db_boqs (update_boq (b_id b) data (snd s))
                \<and> ?R s' b (b\<lparr>b_data := Some data\<rparr>)))"
      using migrate_boq_cases[of Pid gen js c s b s', OF gen] by blast
  next
    fix a e x y assume "?R a x y" "?ext a e"
    then show "?R e x y"
      by (auto simp: units_grow_def elim!: boq_rel_mono intro: migrated_mono)
  qed (auto simp: units_grow_def boq_rel_id)
  then have I': "\<forall>r \<in> set (db_units d'). Pid (ur_id r)" and g: "units_grow d d'" and
    rr: "rows_rel (\<lambda>x. b_id x \<in> b_id ` set (select_boqs c d))
           (\<lambda>x y. no_nulls (b_data x) \<and> boq_rel (migrated js c d') x y) (db_boqs d) (db_boqs d')"
    by simp_all
  have "rows_rel (\<lambda>x. b_company_id x = Some c)
          (\<lambda>x y. no_nulls (b_data x) \<and> boq_rel (migrated js c d') x y) (db_boqs d) (db_boqs d')"
    using rows_rel_cong[OF select_boqs_ids[OF dist] rr] by simp
  then have "rows_rel (\<lambda>x. b_company_id x = Some c) (migrated_boq js d') (db_boqs d) (db_boqs d')"
    unfolding rows_rel_def
    by (rule list_all2_mono) (auto simp: migrated_boq_def split: if_splits)
  with I' g show ?thesis by simp
qed

lemma migrate_companies_rows:
  assumes gen: "\<And>n. Pid (gen n)"
    and run: "migrate_companies js gen d cs = Inr d'"
    and dist: "distinct (map b_id (db_boqs d))" and cs: "distinct cs"
    and ids: "\<forall>r \<in> set (db_units d). Pid (ur_id r)"
  shows "(\<forall>r \<in> set (db_units d'). Pid (ur_id r)) \<and> units_grow d d'
       \<and> rows_rel (\<lambda>x. b_company_id x \<in> Some ` set cs) (migrated_boq js d') (db_boqs d) (db_boqs d')"
proof (rule companies_rows_rel[where loop = "migrate_companies js gen"
        and per_company = "migrate_company js gen"
        and I = "\<lambda>d. \<forall>r \<in> set (db_units d). Pid (ur_id r)" and ext = units_grow
        and R = "migrated_boq js"])
  show "migrate_companies js gen d cs = Inr d'" by fact
  show "\<forall>r \<in> set (db_units d). Pid (ur_id r)" by fact
  show "distinct (map b_id (db_boqs d))" by fact
  show "distinct cs" by fact
next
  fix d c d'
  assume "\<forall>r \<in> set (db_units d). Pid (ur_id r)" "distinct (map b_id (db_boqs d))"
    "migrate_company js gen d c = Inr d'"
  then show "(\<forall>r \<in> set (db_units d'). Pid (ur_id r)) \<and> units_grow d d'
       \<and> rows_rel (\<lambda>x. b_company_id x = Some c) (migrated_boq js d') (db_boqs d) (db_boqs d')"
    using migrate_company_rows[of Pid gen js d c d', OF gen] by blast
next
  fix a c x y assume "migrated_boq js a x y" "units_grow a c"
  then show "migrated_boq js c x y" by (rule migrated_boq_mono)
qed (auto simp: units_grow_def migrated_boq_def boq_rel_def)

section \<open>A second run of the pipeline\<close>

lemma for_items_quiet:
  assumes "items_rel (\<lambda>it it'. \<forall>s. step s (Some it') = Inr (it', False, s)) es es'"
    and "None \<notin> set es'"
  shows "for_items step s es' = Inr (es', False, s)"
  using assms unfolding items_rel_def
  by (induction rule: list_all2_induct) (auto elim!: option.rel_cases)

lemma for_sections_quiet:
  assumes "sections_rel (\<lambda>it it'. \<forall>s. step s (Some it') = Inr (it', False, s)) secs secs'"
    and "no_null_sections secs'"
  shows "for_sections step s secs' = Inr (secs', False, s)"
  using assms unfolding sections_rel_def
proof (induction rule: list_all2_induct)
  case Nil
  then show ?case by simp
next
  case (Cons x xs y ys)
  from Cons.prems obtain sec' where y: "y = Some sec'" and
    nn: "case s_items sec' of None \<Rightarrow> True | Some items \<Rightarrow> None \<notin> set items"
    "no_null_sections ys"
    by (cases y) (auto simp: no_null_sections_def)
  from Cons.hyps(1) y obtain sec where x: "x = Some sec" and
    sr: "section_rel (\<lambda>it it'. \<forall>s. step s (Some it') = Inr (it', False, s)) sec sec'"
    by (auto elim!: option.rel_cases)
  have rest: "for_sections step s ys = Inr (ys, False, s)" using Cons.IH[OF nn(2)] .
  show ?case
  proof (cases "s_items sec'")
    case None
    with rest y show ?thesis by simp
  next
    case (Some items')
    with sr obtain items where
      "items_rel (\<lambda>it it'. \<forall>s. step s (Some it') = Inr (it', False, s)) items items'"
      by (auto simp: section_rel_def elim!: option.rel_cases)
    from for_items_quiet[OF this] nn(1) Some
    have "for_items step s items' = Inr (items', False, s)" by simp
    with rest y Some show ?thesis by simp
  qed
qed

lemma for_data_quiet:
  assumes "boq_rel (\<lambda>it it'. \<forall>s. step s (Some it') = Inr (it', False, s)) x y"
    and "no_nulls (b_data y)"
  shows "for_data step s (b_data y) = Inr (None, s)"
proof (cases "b_data y")
  case None
  then show ?thesis by (simp add: for_data_def)
next
  case (Some dy)
  with assms(1) obtain dx where
    dr: "data_rel (\<lambda>it it'. \<forall>s. step s (Some it') = Inr (it', False, s)) dx dy"
    by (auto simp: boq_rel_def elim!: option.rel_cases)
  show ?thesis
  proof (cases "d_sections dy")
    case None
    with Some show ?thesis by (simp add: for_data_def)
  next
    case (Some secs')
    with dr obtain secs where
      "sections_rel (\<lambda>it it'. \<forall>s. step s (Some it') = Inr (it', False, s)) secs secs'"
      by (auto simp: data_rel_def elim!: option.rel_cases)
    moreover have "no_null_sections secs'"
      using assms(2) Some \<open>b_data y = Some dy\<close> by (simp add: no_nulls_def)
    ultimately have "for_sections step s secs' = Inr (secs', False, s)"
      by (rule for_sections_quiet)
    with Some \<open>b_data y = Some dy\<close> show ?thesis by (simp add: for_data_def)
  qed
qed

lemma migrate_item_skipped:
  "skipped it \<Longrightarrow> migrate_item js gen c st (Some it) = Inr (it, False, st)"
  by (auto simp: skipped_def migrate_item_def Let_def)

lemma migrated_skipped:
  assumes "migrated js c d it it'" "\<forall>r \<in> set (db_units d). ur_id r \<noteq> []"
  shows "skipped it'"
  using assms unfolding migrated_def skipped_def by auto

lemma migrate_boqs_quiet:
  "(\<And>b. b \<in> set bs \<Longrightarrow> migrate_boq js gen c st b = Inr st) \<Longrightarrow> migrate_boqs js gen c st bs = Inr st"
  by (induction bs) auto

lemma migrate_companies_quiet:
  "(\<And>c. c \<in> set cs \<Longrightarrow> migrate_company js gen d c = Inr d) \<Longrightarrow> migrate_companies js gen d cs = Inr d"
  by (induction cs) auto

lemma migrate_second_run:
  assumes gen: "\<And>n. gen n \<noteq> []"
    and run: "migrate_companies js gen d cs = Inr d'"
    and dist: "distinct (map b_id (db_boqs d))" and cs: "distinct cs"
    and ids: "\<forall>r \<in> set (db_units d). ur_id r \<noteq> []"
  shows "migrate_companies js gen d' cs = Inr d'
       \<and> rows_rel (\<lambda>x. b_company_id x \<in> Some ` set cs) (boq_rel (\<lambda>it it'. skipped it'))
           (db_boqs d) (db_boqs d')"
proof -
  from migrate_companies_rows[of "\<lambda>i. i \<noteq> []" gen js d cs d', OF gen run dist cs ids] have
    ids': "\<forall>r \<in> set (db_units d'). ur_id r \<noteq> []" and
    rr: "rows_rel (\<lambda>x. b_company_id x \<in> Some ` set cs) (migrated_boq js d') (db_boqs d) (db_boqs d')"
    by blast+
  have sk: "boq_rel (\<lambda>it it'. skipped it') x y" if "migrated_boq js d' x y" for x y
    using that unfolding migrated_boq_def
    by (auto elim!: boq_rel_mono intro: migrated_skipped[OF _ ids'])
  have rows: "rows_rel (\<lambda>x. b_company_id x \<in> Some ` set cs) (boq_rel (\<lambda>it it'. skipped it'))
           (db_boqs d) (db_boqs d')"
    using rr unfolding rows_rel_def
    by (rule list_all2_mono) (auto split: if_splits intro: sk)
  have "migrate_companies js gen d' cs = Inr d'"
  proof (rule migrate_companies_quiet)
    fix c assume c: "c \<in> set cs"
    have "migrate_boqs js gen c (select_units c d', d') (select_boqs c d') = Inr (select_units c d', d')"
    proof (rule migrate_boqs_quiet)
      fix y assume "y \<in> set (select_boqs c d')"
      then have y: "y \<in> set (db_boqs d')" "b_company_id y = Some c"
        by (simp_all add: select_boqs_def)
      from rows_rel_image[OF rr y(1)] obtain x where
        x: "if b_company_id x \<in> Some ` set cs then migrated_boq js d' x y else y = x" by blast
      have "b_company_id x = Some c"
        using x y(2) by (auto simp: migrated_boq_def boq_rel_def split: if_splits)
      with x c have m: "migrated_boq js d' x y" by auto
      then have "no_nulls (b_data x)" "boq_rel (\<lambda>it it'. skipped it') x y"
        using sk by (auto simp: migrated_boq_def)
      then have "no_nulls (b_data y)"
        "boq_rel (\<lambda>it it'. \<forall>s. migrate_item js gen c s (Some it') = Inr (it', False, s)) x y"
        using boq_rel_no_nulls[of "\<lambda>it it'. skipped it'" x y]
        by (auto elim!: boq_rel_mono simp: migrate_item_skipped)
      from for_data_quiet[OF this(2,1)]
      show "migrate_boq js gen c (select_units c d', d') y = Inr (select_units c d', d')"
        by (simp add: migrate_boq_def)
    qed
    then show "migrate_company js gen d' c = Inr d'" by (simp add: migrate_company_def)
  qed
  with rows show ?thesis by simp
qed

text \<open>
  C3. Over a store with distinct BOQ ids and distinct company ids (the tables' primary
  keys) in which unit ids are non-empty, and with a store that hands out non-empty ids,
  running the pipeline on the store a run has left gives that store and that exit code
  again: the units table, the BOQ documents and the id counter are the same, so the second
  run creates no unit and rewrites no item. After a committed run every item of every BOQ
  of a listed company is one the pipeline skips: its \<open>unit_id\<close> is set or it has no
  token.
\<close>

theorem migration_idempotent:
  assumes "\<And>n. gen n \<noteq> []" and "\<forall>r \<in> set (db_units d). ur_id r \<noteq> []"
    and "distinct (map b_id (db_boqs d))" and "distinct (db_companies d)"
  shows "migrate_units_names_to_ids js gen (fst (migrate_units_names_to_ids js gen d))
           = migrate_units_names_to_ids js gen d
       \<and> (snd (migrate_units_names_to_ids js gen d) = 0 \<longrightarrow>
            rows_rel (\<lambda>x. b_company_id x \<in> Some ` set (db_companies d))
              (boq_rel (\<lambda>it it'. skipped it'))
              (db_boqs d) (db_boqs (fst (migrate_units_names_to_ids js gen d))))"
proof (cases "migrate_companies js gen d (db_companies d)")
  case (Inl e)
  then show ?thesis by (simp add: migrate_units_names_to_ids_def)
next
  case (Inr d')
  from migrate_second_run[OF assms(1) Inr assms(3,4,2)] have
    2: "migrate_companies js gen d' (db_companies d) = Inr d'" and
    r: "rows_rel (\<lambda>x. b_company_id x \<in> Some ` set (db_companies d))
          (boq_rel (\<lambda>it it'. skipped it')) (db_boqs d) (db_boqs d')"
    by blast+
  from migrate_companies_rows[of "\<lambda>_. True" gen js d "db_companies d" d', OF _ Inr assms(3,4)]
  have "db_companies d' = db_companies d" by (simp add: units_grow_def)
  with 2 r Inr show ?thesis by (simp add: migrate_units_names_to_ids_def)
qed

lemma example_gen_nonempty: "example_gen n \<noteq> []"
  by (simp add: example_gen_def)

theorem migration_idempotent_witness:
  "migrate_units_names_to_ids example_engine example_gen store_two_companies
     = (fst (migrate_units_names_to_ids example_engine example_gen store_two_companies), 0)
   \<and> length (db_units (fst (migrate_units_names_to_ids example_engine example_gen store_two_companies))) = 3
   \<and> migrate_units_names_to_ids example_engine example_gen
        (fst (migrate_units_names_to_ids example_engine example_gen store_two_companies))
     = migrate_units_names_to_ids example_engine example_gen store_two_companies"
proof -
  have h: "\<forall>r \<in> set (db_units store_two_companies). ur_id r \<noteq> []"
    "distinct (map b_id (db_boqs store_two_companies))"
    "distinct (db_companies store_two_companies)"
    by code_simp+
  have e: "snd (migrate_units_names_to_ids example_engine example_gen store_two_companies) = 0"
    "length (db_units (fst (migrate_units_names_to_ids example_engine example_gen store_two_companies))) = 3"
    by code_simp+
  from migration_idempotent[of example_gen store_two_companies example_engine, OF example_gen_nonempty h] e
  show ?thesis by (simp add: prod_eq_iff)
qed

section \<open>Company isolation\<close>

lemma boq_rel_refl: "(\<And>it. Q it it) \<Longrightarrow> boq_rel Q b b"
  unfolding boq_rel_def data_rel_def sections_rel_def section_rel_def items_rel_def
  by (auto simp: option.rel_refl_strong list_all2_same intro!: option.rel_refl_strong
      list_all2_refl)


lemma migrated_own_unit: "migrated js c d it it' \<Longrightarrow> own_unit (Some c) d it it'"
  unfolding migrated_def own_unit_def by auto

lemma normalized_own_unit: "own_unit (Some c) d it (normalized js (select_units c d) it)"
proof -
  let ?us = "select_units c d"
  have row: "\<exists>r \<in> set (db_units d). ur_company_id r = Some c \<and> u_id u = ur_id r
      \<and> u_name u = ur_name r \<and> abbreviation_or_name u = or_else (ur_abbreviation r) (ur_name r)"
    if "u \<in> set ?us" for u
    using select_units_mem[OF that] by (auto simp: row_unit_def abbreviation_or_name_def)
  from normalized_cases[of js ?us it] consider
    (same) "normalized js ?us it = it"
    | (byid) u where "u \<in> set ?us"
        "normalized js ?us it = it\<lparr>it_unit_abbreviation := Some (abbreviation_or_name u),
                               it_unit_name := Some (u_name u)\<rparr>"
        "find (\<lambda>u. Some (u_id u) = it_unit_id it) ?us = Some u"
    | (byname) u where "u \<in> set ?us"
        "normalized js ?us it = it\<lparr>it_unit_id := Some (u_id u),
                               it_unit_abbreviation := Some (abbreviation_or_name u)\<rparr>"
    | (byunit) u where "u \<in> set ?us"
        "normalized js ?us it = it\<lparr>it_unit_id := Some (u_id u),
                               it_unit_abbreviation := Some (abbreviation_or_name u),
                               it_unit_name := Some (u_name u)\<rparr>"
    by blast
  then show ?thesis
  proof cases
    case same
    then show ?thesis by (simp add: own_unit_def)
  next
    case byid
    from find_SomeD[OF byid(3)] have id: "it_unit_id it = Some (u_id u)" by simp
    from row[OF byid(1)] obtain r where r: "r \<in> set (db_units d)" "ur_company_id r = Some c"
      "u_id u = ur_id r" "u_name u = ur_name r"
      "abbreviation_or_name u = or_else (ur_abbreviation r) (ur_name r)" by blast
    show ?thesis unfolding own_unit_def byid(2)
      by (rule disjI2, rule bexI[OF _ r(1)]) (simp add: r id)
  next
    case byname
    from row[OF byname(1)] obtain r where r: "r \<in> set (db_units d)" "ur_company_id r = Some c"
      "u_id u = ur_id r" "u_name u = ur_name r"
      "abbreviation_or_name u = or_else (ur_abbreviation r) (ur_name r)" by blast
    show ?thesis unfolding own_unit_def byname(2)
      by (rule disjI2, rule bexI[OF _ r(1)]) (simp add: r)
  next
    case byunit
    from row[OF byunit(1)] obtain r where r: "r \<in> set (db_units d)" "ur_company_id r = Some c"
      "u_id u = ur_id r" "u_name u = ur_name r"
      "abbreviation_or_name u = or_else (ur_abbreviation r) (ur_name r)" by blast
    show ?thesis unfolding own_unit_def byunit(2)
      by (rule disjI2, rule bexI[OF _ r(1)]) (simp add: r)
  qed
qed

lemma rows_rel_weaken:
  assumes "rows_rel P R xs ys" "\<And>x y. P x \<Longrightarrow> R x y \<Longrightarrow> R' x y" "\<And>x. \<not> P x \<Longrightarrow> R' x x"
  shows "list_all2 R' xs ys"
  using assms(1) unfolding rows_rel_def
  by (rule list_all2_mono) (auto split: if_splits intro: assms(2,3))

text \<open>
  C9. Over a store with distinct BOQ ids and distinct company ids, whatever the Migration
  Pipeline and the Normalization Runner do, every BOQ keeps its company and its shape, and
  every item is unchanged or carries afterwards the id of a unit row of the company the
  BOQ belongs to, with \<open>unit_name\<close> and \<open>unit_abbreviation\<close> unchanged or taken from
  that row. A unit of another company is never written to it, whatever names the units of
  the two companies share.
\<close>

theorem company_isolation:
  assumes "distinct (map b_id (db_boqs d))" and "distinct (db_companies d)"
  shows "list_all2 (\<lambda>x y. boq_rel (own_unit (b_company_id x) (fst (migrate_units_names_to_ids js gen d))) x y)
           (db_boqs d) (db_boqs (fst (migrate_units_names_to_ids js gen d)))
       \<and> list_all2 (\<lambda>x y. boq_rel (own_unit (b_company_id x) d) x y)
           (db_boqs d) (db_boqs (fst (units_normalize_runner js d)))"
proof
  have refl: "boq_rel (own_unit co e) x x" for co e x
    by (rule boq_rel_refl) (simp add: own_unit_def)
  show "list_all2 (\<lambda>x y. boq_rel (own_unit (b_company_id x) (fst (migrate_units_names_to_ids js gen d))) x y)
           (db_boqs d) (db_boqs (fst (migrate_units_names_to_ids js gen d)))"
  proof (cases "migrate_companies js gen d (db_companies d)")
    case (Inl e)
    then show ?thesis by (simp add: migrate_units_names_to_ids_def list_all2_same refl)
  next
    case (Inr d')
    from migrate_companies_rows[of "\<lambda>_. True" gen js d "db_companies d" d', OF _ Inr assms]
    have "rows_rel (\<lambda>x. b_company_id x \<in> Some ` set (db_companies d)) (migrated_boq js d')
            (db_boqs d) (db_boqs d')" by simp
    then have "list_all2 (\<lambda>x y. boq_rel (own_unit (b_company_id x) d') x y) (db_boqs d) (db_boqs d')"
      by (rule rows_rel_weaken)
         (auto simp: migrated_boq_def refl elim!: boq_rel_mono intro: migrated_own_unit)
    with Inr show ?thesis by (simp add: migrate_units_names_to_ids_def)
  qed
  show "list_all2 (\<lambda>x y. boq_rel (own_unit (b_company_id x) d) x y)
           (db_boqs d) (db_boqs (fst (units_normalize_runner js d)))"
  proof (cases "normalize_companies js d (db_companies d)")
    case (Inl e)
    then show ?thesis by (simp add: units_normalize_runner_def list_all2_same refl)
  next
    case (Inr d')
    from normalize_companies_rows[OF Inr assms] have su: "same_units d d'" and
      rr: "rows_rel (\<lambda>x. b_company_id x \<in> Some ` set (db_companies d)) (normalized_boq js d')
            (db_boqs d) (db_boqs d')" by simp_all
    have "list_all2 (\<lambda>x y. boq_rel (own_unit (b_company_id x) d) x y) (db_boqs d) (db_boqs d')"
      by (rule rows_rel_weaken[OF rr])
         (auto simp: normalized_boq_def refl same_units_select[OF su] elim!: boq_rel_mono
           intro: normalized_own_unit)
    with Inr show ?thesis by (simp add: units_normalize_runner_def)
  qed
qed

theorem company_isolation_witness:
  "distinct (map b_id (db_boqs store_two_companies))
   \<and> distinct (db_companies store_two_companies)
   \<and> list_all2 (\<lambda>x y. boq_rel (own_unit (b_company_id x)
          (fst (migrate_units_names_to_ids example_engine example_gen store_two_companies))) x y)
        (db_boqs store_two_companies)
        (db_boqs (fst (migrate_units_names_to_ids example_engine example_gen store_two_companies)))
   \<and> list_all2 (\<lambda>x y. boq_rel (own_unit (b_company_id x) store_two_companies) x y)
        (db_boqs store_two_companies)
        (db_boqs (fst (units_normalize_runner example_engine store_two_companies)))"
proof -
  have h: "distinct (map b_id (db_boqs store_two_companies))"
    "distinct (db_companies store_two_companies)"
    by code_simp+
  from company_isolation[OF h, of example_engine example_gen] h show ?thesis by simp
qed

section \<open>Runs over a \<open>null\<close> item\<close>

lemma rows_rel_fwd:
  assumes "rows_rel P R xs ys" "x \<in> set xs"
  shows "\<exists>y \<in> set ys. if P x then R x y else y = x"
proof -
  from assms(2) obtain i where "i < length xs" "xs ! i = x" by (auto simp: in_set_conv_nth)
  with assms(1) show ?thesis
    unfolding rows_rel_def list_all2_conv_all_nth by (metis nth_mem)
qed

text \<open>
  A committed loop over the companies has met no \<open>null\<close> entry in a BOQ of a listed
  company: until its company's turn the BOQ is in the table as it was.
\<close>

lemma companies_no_nulls:
  fixes loop :: "db \<Rightarrow> jstring list \<Rightarrow> error + db"
  assumes nil: "\<And>d. loop d [] = Inr d"
    and cons: "\<And>d c cs. loop d (c # cs) =
                 (case per_company d c of Inl e \<Rightarrow> Inl e | Inr d' \<Rightarrow> loop d' cs)"
    and per: "\<And>d c d'. distinct (map b_id (db_boqs d)) \<Longrightarrow> per_company d c = Inr d' \<Longrightarrow>
                 rows_rel (\<lambda>x. b_company_id x = Some c) (R d') (db_boqs d) (db_boqs d')"
    and R: "\<And>a x y. R a x y \<Longrightarrow> b_id y = b_id x \<and> no_nulls (b_data x)"
  shows "loop d cs = Inr d' \<Longrightarrow> distinct (map b_id (db_boqs d)) \<Longrightarrow> b \<in> set (db_boqs d) \<Longrightarrow>
         b_company_id b = Some c \<Longrightarrow> c \<in> set cs \<Longrightarrow> no_nulls (b_data b)"
proof (induction cs arbitrary: d)
  case Nil
  then show ?case by simp
next
  case (Cons c' cs)
  from Cons.prems(1) obtain d1 where p: "per_company d c' = Inr d1" and l: "loop d1 cs = Inr d'"
    by (auto simp: cons split: sum.splits)
  note one = per[OF Cons.prems(2) p]
  show ?case
  proof (cases "c' = c")
    case True
    with rows_rel_fwd[OF one Cons.prems(3)] Cons.prems(4) obtain y where "R d1 b y" by auto
    then show ?thesis using R by blast
  next
    case False
    have "map b_id (db_boqs d1) = map b_id (db_boqs d)"
      by (rule rows_rel_ids[OF one]) (simp add: R)
    then have d1: "distinct (map b_id (db_boqs d1))" using Cons.prems(2) by simp
    have b1: "b \<in> set (db_boqs d1)"
      using rows_rel_keep[OF one Cons.prems(3)] Cons.prems(4) False by simp
    from Cons.prems(5) False have "c \<in> set cs" by simp
    from Cons.IH[OF l d1 b1 Cons.prems(4) this] show ?thesis .
  qed
qed

text \<open>
  C10. A BOQ of a listed company whose \<open>sections\<close> is an array, with a section whose
  \<open>items\<close> is an array holding a \<open>null\<close> entry, makes each of the three jobs end with
  exit code 1 and the store rolled back to what it was (BOQ ids are the table's primary
  key). The loop body itself fails on a \<open>null\<close> entry with a \<open>TypeError\<close>.
\<close>

theorem null_item_aborts:
  assumes "b \<in> set (db_boqs d)" and "has_null_item (b_data b)"
    and "distinct (map b_id (db_boqs d))"
    and "b_company_id b = Some c" and "c \<in> set (db_companies d)"
  shows "migrate_units_names_to_ids js gen d = (d, 1)
       \<and> units_normalize_runner js d = (d, 1)
       \<and> cleanup_boq_legacy_units d = (d, 1)
       \<and> migrate_item js gen c st None = Inl TypeError
       \<and> normalize_item js units () None = Inl TypeError
       \<and> cleanup_item () None = Inl TypeError"
proof -
  have nn: "\<not> no_nulls (b_data b)" using assms(2) by (rule has_null_item_nulls)
  have "migrate_companies js gen d (db_companies d) \<noteq> Inr d'" for d'
  proof
    assume run: "migrate_companies js gen d (db_companies d) = Inr d'"
    have "no_nulls (b_data b)"
    proof (rule companies_no_nulls[where loop = "migrate_companies js gen"
          and per_company = "migrate_company js gen" and R = "migrated_boq js",
          OF _ _ _ _ run assms(3,1,4,5)])
      fix d c d' assume "distinct (map b_id (db_boqs d))" "migrate_company js gen d c = Inr d'"
      then show "rows_rel (\<lambda>x. b_company_id x = Some c) (migrated_boq js d') (db_boqs d) (db_boqs d')"
        using migrate_company_rows[of "\<lambda>_. True" gen js d c d'] by simp
    qed (auto simp: migrated_boq_def boq_rel_def)
    with nn show False by simp
  qed
  then have 1: "migrate_units_names_to_ids js gen d = (d, 1)"
    by (cases "migrate_companies js gen d (db_companies d)")
       (auto simp: migrate_units_names_to_ids_def)
  have "normalize_companies js d (db_companies d) \<noteq> Inr d'" for d'
  proof
    assume run: "normalize_companies js d (db_companies d) = Inr d'"
    have "no_nulls (b_data b)"
    proof (rule companies_no_nulls[where loop = "normalize_companies js"
          and per_company = "normalize_company js" and R = "normalized_boq js",
          OF _ _ _ _ run assms(3,1,4,5)])
      fix d c d' assume "distinct (map b_id (db_boqs d))" "normalize_company js d c = Inr d'"
      then show "rows_rel (\<lambda>x. b_company_id x = Some c) (normalized_boq js d') (db_boqs d) (db_boqs d')"
        using normalize_company_rows[of js d c d'] by simp
    qed (auto simp: normalized_boq_def boq_rel_def)
    with nn show False by simp
  qed
  then have 2: "units_normalize_runner js d = (d, 1)"
    by (cases "normalize_companies js d (db_companies d)")
       (auto simp: units_normalize_runner_def)
  have "cleanup_boqs d (db_boqs d) \<noteq> Inr d'" for d'
    using cleanup_boqs_no_nulls[of d "db_boqs d" d' b] assms(1) nn by blast
  then have 3: "cleanup_boq_legacy_units d = (d, 1)"
    by (cases "cleanup_boqs d (db_boqs d)") (auto simp: cleanup_boq_legacy_units_def)
  from 1 2 3 show ?thesis
    by (simp add: migrate_item_def normalize_item_def cleanup_item_def)
qed

theorem null_item_aborts_witness:
  "has_null_item (b_data (boq_of_items (lit ''b1'') (lit ''c1'') [Some item_excavation, None]))
   \<and> migrate_units_names_to_ids example_engine example_gen store_null_item = (store_null_item, 1)
   \<and> units_normalize_runner example_engine store_null_item = (store_null_item, 1)
   \<and> cleanup_boq_legacy_units store_null_item = (store_null_item, 1)"
proof -
  have h: "boq_of_items (lit ''b1'') (lit ''c1'') [Some item_excavation, None] \<in> set (db_boqs store_null_item)"
    "has_null_item (b_data (boq_of_items (lit ''b1'') (lit ''c1'') [Some item_excavation, None]))"
    "distinct (map b_id (db_boqs store_null_item))"
    "b_company_id (boq_of_items (lit ''b1'') (lit ''c1'') [Some item_excavation, None]) = Some (lit ''c1'')"
    "(lit ''c1'') \<in> set (db_companies store_null_item)"
    by code_simp+
  from null_item_aborts[OF h, of example_engine example_gen] h(2) show ?thesis by simp
qed

section \<open>Export and re-parsing\<close>

declare digits.simps [simp del]





















end
